theory Spec2Isabelle
  imports Complex_Main "HOL-Library.Word"
begin

section \<open>C doubles: exact reals with the IEEE special values\<close>

text \<open>
  The sampler of \<^verbatim>\<open>chain.c\<close> computes with C doubles. They are modelled as exact
  real numbers extended with the three special values of IEEE 754 that the C library
  returns where a real function has no value: \<open>log\<close> of zero is minus infinity,
  \<open>log\<close> and \<open>sqrt\<close> of a negative number are NaN, a division by zero is an
  infinity or NaN, and every comparison with NaN is false. In these operations rounding,
  overflow, underflow and the sign of zero are not modelled: a finite result is the
  exact real result. Where a statement below depends on the double that an exact result
  is rounded to, it says so with \<open>to_double\<close> and \<open>rnd\<close>, and \<open>model\<close> is
  evaluated with every operation rounded in \<open>model_binary64\<close>.
\<close>

datatype double = Fin real | PInf | NInf | NaN

instantiation double :: "{uminus, plus, minus, times, inverse, ord}"
begin

fun uminus_double :: "double \<Rightarrow> double" where
  "- Fin x = Fin (- x)"
| "- PInf = NInf"
| "- NInf = PInf"
| "- NaN = NaN"

fun plus_double :: "double \<Rightarrow> double \<Rightarrow> double" where
  "Fin x + Fin y = Fin (x + y)"
| "NaN + _ = NaN"
| "_ + NaN = NaN"
| "PInf + NInf = NaN"
| "NInf + PInf = NaN"
| "PInf + _ = PInf"
| "_ + PInf = PInf"
| "NInf + _ = NInf"
| "_ + NInf = NInf"

definition minus_double :: "double \<Rightarrow> double \<Rightarrow> double" where
  "minus_double a b = a + (- b)"

fun times_double :: "double \<Rightarrow> double \<Rightarrow> double" where
  "Fin x * Fin y = Fin (x * y)"
| "NaN * _ = NaN"
| "_ * NaN = NaN"
| "PInf * Fin y = (if y = 0 then NaN else if 0 < y then PInf else NInf)"
| "NInf * Fin y = (if y = 0 then NaN else if 0 < y then NInf else PInf)"
| "Fin x * PInf = (if x = 0 then NaN else if 0 < x then PInf else NInf)"
| "Fin x * NInf = (if x = 0 then NaN else if 0 < x then NInf else PInf)"
| "PInf * PInf = PInf"
| "PInf * NInf = NInf"
| "NInf * PInf = NInf"
| "NInf * NInf = PInf"

text \<open>
  Division. The only divisor of the program is a square (\<open>Sigma * Sigma\<close>), so a
  zero divisor is the positive zero.
\<close>

fun divide_double :: "double \<Rightarrow> double \<Rightarrow> double" where
  "divide_double (Fin x) (Fin y) =
     (if y \<noteq> 0 then Fin (x / y)
      else if x = 0 then NaN else if 0 < x then PInf else NInf)"
| "divide_double NaN _ = NaN"
| "divide_double _ NaN = NaN"
| "divide_double (Fin x) PInf = Fin 0"
| "divide_double (Fin x) NInf = Fin 0"
| "divide_double PInf (Fin y) = (if 0 \<le> y then PInf else NInf)"
| "divide_double NInf (Fin y) = (if 0 \<le> y then NInf else PInf)"
| "divide_double PInf PInf = NaN"
| "divide_double PInf NInf = NaN"
| "divide_double NInf PInf = NaN"
| "divide_double NInf NInf = NaN"

definition inverse_double :: "double \<Rightarrow> double" where
  "inverse_double a = divide (Fin 1) a"

text \<open>The comparisons \<open><\<close> and \<open><=\<close> of C: false as soon as an operand is NaN.\<close>

fun less_double :: "double \<Rightarrow> double \<Rightarrow> bool" where
  "Fin x < Fin y \<longleftrightarrow> x < y"
| "NaN < _ \<longleftrightarrow> False"
| "_ < NaN \<longleftrightarrow> False"
| "_ < NInf \<longleftrightarrow> False"
| "PInf < _ \<longleftrightarrow> False"
| "NInf < _ \<longleftrightarrow> True"
| "_ < PInf \<longleftrightarrow> True"

fun less_eq_double :: "double \<Rightarrow> double \<Rightarrow> bool" where
  "Fin x \<le> Fin y \<longleftrightarrow> x \<le> y"
| "NaN \<le> _ \<longleftrightarrow> False"
| "_ \<le> NaN \<longleftrightarrow> False"
| "NInf \<le> _ \<longleftrightarrow> True"
| "_ \<le> PInf \<longleftrightarrow> True"
| "_ \<le> NInf \<longleftrightarrow> False"
| "PInf \<le> _ \<longleftrightarrow> False"

instance ..

end

text \<open>The functions of \<^verbatim>\<open>math.h\<close> that the program calls.\<close>

fun c_exp :: "double \<Rightarrow> double" where
  "c_exp (Fin x) = Fin (exp x)"
| "c_exp PInf = PInf"
| "c_exp NInf = Fin 0"
| "c_exp NaN = NaN"

fun c_log :: "double \<Rightarrow> double" where
  "c_log (Fin x) = (if 0 < x then Fin (ln x) else if x = 0 then NInf else NaN)"
| "c_log PInf = PInf"
| "c_log NInf = NaN"
| "c_log NaN = NaN"

fun c_sqrt :: "double \<Rightarrow> double" where
  "c_sqrt (Fin x) = (if 0 \<le> x then Fin (sqrt x) else NaN)"
| "c_sqrt PInf = PInf"
| "c_sqrt NInf = NaN"
| "c_sqrt NaN = NaN"

fun c_cos :: "double \<Rightarrow> double" where
  "c_cos (Fin x) = Fin (cos x)"
| "c_cos _ = NaN"

fun c_sin :: "double \<Rightarrow> double" where
  "c_sin (Fin x) = Fin (sin x)"
| "c_sin _ = NaN"

section \<open>Rounding to binary64\<close>

text \<open>
  The binary64 number that IEEE 754 arithmetic delivers for an exact result \<open>x\<close>:
  the multiple of the unit in the last place of \<open>x\<close> that is nearest to \<open>x\<close>, the
  one with the even significand on a tie, and an infinity beyond \<open>DBL_MAX\<close>. The
  significand has 53 bits and the least exponent is \<open>-1022\<close>. The literal
  \<^verbatim>\<open>-1.e34\<close> of the program is the double \<open>to_double (- (10 ^ 34))\<close>.
\<close>

definition DBL_MAX :: real where
  "DBL_MAX = (2 ^ 53 - 1) * 2 ^ 971"

definition round_even :: "real \<Rightarrow> int" where
  "round_even r =
     (let n = \<lfloor>r\<rfloor>
      in if r - of_int n < 1 / 2 then n
         else if 1 / 2 < r - of_int n then n + 1
         else if even n then n else n + 1)"

definition to_double :: "real \<Rightarrow> double" where
  "to_double x =
     (if x = 0 then Fin 0
      else
        let e = max \<lfloor>log 2 \<bar>x\<bar>\<rfloor> (- 1022);
            ulp = 2 powr (of_int e - 52);
            y = of_int (round_even (x / ulp)) * ulp
        in if DBL_MAX < y then PInf else if y < - DBL_MAX then NInf else Fin y)"

text \<open>
  \<open>rnd\<close> rounds the result of one operation. \<open>nonneg\<close>: a double that is NaN,
  plus infinity or a finite number that is not negative.
\<close>

fun rnd :: "double \<Rightarrow> double" where
  "rnd (Fin x) = to_double x"
| "rnd d = d"


section \<open>The target distribution: model, prior, like, post\<close>

definition M_PI :: double where
  "M_PI = Fin pi"

definition muarcsecToRad :: double where
  "muarcsecToRad = Fin (48481368110954 / 10 ^ 25)"

text \<open>The sentinel \<^verbatim>\<open>-1.e34\<close> of \<open>like\<close> and of the initial \<open>*postMax\<close>.\<close>

definition sentinel :: double where
  "sentinel = Fin (- (10 ^ 34))"

text \<open>
  \<open>model\<close>: the visibility amplitude of the two-Gaussian model at \<open>(uCo, vCo)\<close>.
  It reads \<open>Aparam[0..5]\<close> whatever \<open>Nparam\<close> is.
\<close>

definition model :: "double \<Rightarrow> double \<Rightarrow> nat \<Rightarrow> double list \<Rightarrow> double" where
  "model uCo vCo Nparam Aparam =
     (let aux = Fin 2 * M_PI * M_PI;
          b02 = uCo * uCo + vCo * vCo;
          b02 = b02 * (muarcsecToRad * muarcsecToRad);
          Vr1 = Aparam ! 0 * c_exp (- aux * Aparam ! 1 * Aparam ! 1 * b02);
          V2 = Aparam ! 4 * c_exp (- aux * Aparam ! 5 * Aparam ! 5 * b02);
          phase2 = - Fin 2 * M_PI * (uCo * Aparam ! 2 + vCo * Aparam ! 3) * muarcsecToRad;
          Vr2 = V2 * c_cos phase2;
          Vi2 = V2 * c_sin phase2
      in c_sqrt ((Vr1 + Vr2) * (Vr1 + Vr2) + Vi2 * Vi2))"


definition prior :: "nat \<Rightarrow> double list \<Rightarrow> double" where
  "prior Nparam Aparam = - c_log (Aparam ! 0 * Aparam ! 1 * Aparam ! 4 * Aparam ! 5)"

text \<open>The body of the loop of \<open>like\<close> over the data points \<open>index = 1 .. Npts\<close>.\<close>

definition chi2_step ::
  "nat \<Rightarrow> double list \<Rightarrow> double list \<Rightarrow> double list \<Rightarrow> double list \<Rightarrow> double list
    \<Rightarrow> double \<Rightarrow> nat \<Rightarrow> double" where
  "chi2_step Nparam Aparam uCo vCo Vis Sigma' chi2 index =
     (let variance = Vis ! (index - 1) - model (uCo ! (index - 1)) (vCo ! (index - 1)) Nparam Aparam
      in chi2 + variance * variance / (Sigma' ! (index - 1) * Sigma' ! (index - 1)))"

definition like ::
  "nat \<Rightarrow> double list \<Rightarrow> nat \<Rightarrow> double list \<Rightarrow> double list \<Rightarrow> double list \<Rightarrow> double list
    \<Rightarrow> double" where
  "like Nparam Aparam Npts uCo vCo Vis Sigma' =
     (if Aparam ! 0 < Fin 0 \<or> Aparam ! 1 < Fin 0 \<or> Aparam ! 4 < Fin 0 \<or> Aparam ! 5 < Fin 0
      then sentinel
      else - foldl (chi2_step Nparam Aparam uCo vCo Vis Sigma') (Fin 0) [1..<Suc Npts])"

definition post ::
  "nat \<Rightarrow> double list \<Rightarrow> nat \<Rightarrow> double list \<Rightarrow> double list \<Rightarrow> double list \<Rightarrow> double list
    \<Rightarrow> double" where
  "post Nparam Aparam Npts uCo vCo Vis Sigma' =
     prior Nparam Aparam + like Nparam Aparam Npts uCo vCo Vis Sigma'"

text \<open>
  A flux or width that is zero or whose magnitude lies between \<open>2^-250\<close> and
  \<open>2^250\<close> (about \<open>1e-75\<close> and \<open>1e75\<close>): the product of four of them
  neither overflows nor underflows in double arithmetic.
\<close>

definition moderate :: "real \<Rightarrow> bool" where
  "moderate x \<longleftrightarrow> x = 0 \<or> 1 / 2 ^ 250 \<le> \<bar>x\<bar> \<and> \<bar>x\<bar> \<le> 2 ^ 250"

section \<open>The Gaussian proposal generator\<close>

type_synonym uint32 = "32 word"

definition MTMAX :: uint32 where
  "MTMAX = 0xFFFFFFFF"

text \<open>
  Modelled from the spec: \<open>seedMT\<close> and \<open>randomMT\<close> (the Mersenne Twister) are not
  among the sources. The spec requires a seeded generator of uniform 32-bit unsigned
  integers; the sequence of draws that the generator seeded with \<open>SEEDNO + rank\<close>
  produces is the parameter \<open>draws\<close>, and the state of the generator is the position
  of the next draw.
\<close>

definition randomMT :: "(nat \<Rightarrow> uint32) \<Rightarrow> nat \<Rightarrow> uint32 \<times> nat" where
  "randomMT draws pos = (draws pos, Suc pos)"

text \<open>
  The expression \<^verbatim>\<open>randomMT()/(MTMAX*1.0)+0.5\<close>, which \<open>gauss\<close> evaluates twice and
  \<open>walkers\<close> once per iteration, applied to the draw. \<^verbatim>\<open>chain.c\<close> declares
  \<open>seedMT\<close> and \<open>reloadMT\<close> only: it calls \<open>randomMT\<close> without a prototype, so
  the call has type \<open>int\<close> and the 32 bits of the draw are converted to double as a
  signed integer. \<open>MTMAX\<close> is declared \<open>uint32\<close> and converts unsigned. The value
  lies between \<open>-1 / (2 * (2^32 - 1))\<close>, for the draw \<open>0x80000000\<close>, and \<open>1\<close>.
\<close>

definition uniform01 :: "uint32 \<Rightarrow> double" where
  "uniform01 draw =
     Fin (real_of_int (sint draw)) / (Fin (real (unat MTMAX)) * Fin 1) + Fin (1 / 2)"

definition gauss :: "(nat \<Rightarrow> uint32) \<Rightarrow> double \<Rightarrow> nat \<Rightarrow> double \<times> nat" where
  "gauss draws sigma pos =
     (let (d1, pos) = randomMT draws pos;
          y1 = uniform01 d1;
          (d2, pos) = randomMT draws pos;
          y2 = uniform01 d2;
          result = sigma * c_sqrt (- Fin 2 * c_log y1) * c_cos (Fin 2 * M_PI * y2)
      in (result, pos))"

section \<open>The Metropolis sampler: walkers\<close>

text \<open>
  The C ints \<open>Nchain\<close>, \<open>Nparam\<close>, \<open>Npts\<close>, the loop indices and \<open>accept\<close> are
  counts; they are natural numbers here, and a loop from \<open>1\<close> to \<open>N\<close> runs over
  \<open>[1..<Suc N]\<close>. The name of the chain file, \<open>fname\<close>, is left out.
\<close>

text \<open>
  The loop \<^verbatim>\<open>AparamPlusOne[iparam-1]=Aparam[iparam-1]+gauss(dev[iparam-1])\<close> over
  \<open>iparam = 1 .. Nparam\<close>. It writes every entry of the local array
  \<open>AparamPlusOne[Nparam]\<close>, which is returned as a fresh list, with the position of the
  generator after the \<open>2 * Nparam\<close> draws.
\<close>

fun propose ::
  "(nat \<Rightarrow> uint32) \<Rightarrow> double list \<Rightarrow> double list \<Rightarrow> nat list \<Rightarrow> nat \<Rightarrow> double list \<times> nat" where
  "propose draws Aparam dev [] pos = ([], pos)"
| "propose draws Aparam dev (iparam # rest) pos =
     (let (g, pos) = gauss draws (dev ! (iparam - 1)) pos;
          (tail, pos) = propose draws Aparam dev rest pos
      in ((Aparam ! (iparam - 1) + g) # tail, pos))"

text \<open>
  The copy loops \<^verbatim>\<open>dst[iparam-1]=src[iparam-1]\<close> over \<open>iparam = 1 .. Nparam\<close>:
  \<open>copy_params\<close> into an array that has contents already (the caller's \<open>Aparam\<close>),
  \<open>fill_params\<close> into storage that has none yet (the local \<open>AparamMax[Nparam]\<close>
  and a row of the heap block \<open>chains\<close>).
\<close>

definition copy_params :: "nat \<Rightarrow> double list \<Rightarrow> double list \<Rightarrow> double list" where
  "copy_params Nparam src dst =
     foldl (\<lambda>a iparam. a[iparam - 1 := src ! (iparam - 1)]) dst [1..<Suc Nparam]"

definition fill_params :: "nat \<Rightarrow> double list \<Rightarrow> double list" where
  "fill_params Nparam src = map (\<lambda>iparam. src ! (iparam - 1)) [1..<Suc Nparam]"

text \<open>
  The variables of \<open>walkers\<close> that the loop over \<open>ichain\<close> reads and writes.
  \<open>AparamMax\<close> is an uninitialised local array and \<open>chains\<close> an uninitialised heap
  block of \<open>Nchain\<close> rows: \<open>None\<close> is storage that has not been written.
\<close>

record walker =
  st_Aparam :: "double list"
  st_AparamMax :: "double list option"
  st_postMax :: double
  st_probpre :: double
  st_accept :: nat
  st_chains :: "double list option list"
  st_pos :: nat

definition walk_init ::
  "nat \<Rightarrow> nat \<Rightarrow> double list \<Rightarrow> nat \<Rightarrow> double list \<Rightarrow> double list \<Rightarrow> double list
    \<Rightarrow> double list \<Rightarrow> walker" where
  "walk_init Nchain Nparam Aparam Npts uCo vCo Vis Sigma' =
     \<lparr> st_Aparam = Aparam,
       st_AparamMax = None,
       st_postMax = sentinel,
       st_probpre = post Nparam Aparam Npts uCo vCo Vis Sigma',
       st_accept = 0,
       st_chains = replicate Nchain None,
       st_pos = 0 \<rparr>"

text \<open>One iteration of the loop over \<open>ichain\<close>.\<close>

definition walk_step ::
  "(nat \<Rightarrow> uint32) \<Rightarrow> nat \<Rightarrow> double list \<Rightarrow> nat \<Rightarrow> double list \<Rightarrow> double list
    \<Rightarrow> double list \<Rightarrow> double list \<Rightarrow> walker \<Rightarrow> nat \<Rightarrow> walker" where
  "walk_step draws Nparam dev Npts uCo vCo Vis Sigma' s ichain =
     (let (AparamPlusOne, p) = propose draws (st_Aparam s) dev [1..<Suc Nparam] (st_pos s);
          probpost = post Nparam AparamPlusOne Npts uCo vCo Vis Sigma';
          (d, p) = randomMT draws p;
          probRandom = uniform01 d;
          s = s\<lparr>st_pos := p\<rparr>;
          s = (if st_probpre s + c_log probRandom \<le> probpost
               then let s = s\<lparr>st_Aparam := copy_params Nparam AparamPlusOne (st_Aparam s),
                              st_accept := st_accept s + 1\<rparr>
                    in if st_postMax s < probpost
                       then s\<lparr>st_AparamMax := Some (fill_params Nparam (st_Aparam s)),
                              st_postMax := probpost\<rparr>
                       else s
               else s)
      in s\<lparr>st_chains := (st_chains s)[ichain - 1 := Some (fill_params Nparam (st_Aparam s))]\<rparr>)"

text \<open>The loop \<^verbatim>\<open>for (ichain=1;ichain<=Nchain;ichain++)\<close>.\<close>

definition walk_loop ::
  "(nat \<Rightarrow> uint32) \<Rightarrow> nat \<Rightarrow> double list \<Rightarrow> nat \<Rightarrow> double list \<Rightarrow> double list
    \<Rightarrow> double list \<Rightarrow> double list \<Rightarrow> nat \<Rightarrow> walker \<Rightarrow> walker" where
  "walk_loop draws Nparam dev Npts uCo vCo Vis Sigma' Nchain s =
     foldl (walk_step draws Nparam dev Npts uCo vCo Vis Sigma') s [1..<Suc Nchain]"

text \<open>
  What the process cannot decide itself: whether \<open>malloc\<close> and \<open>fopen\<close> succeed,
  and its rank and the number of ranks, from MPI. \<open>MPI_Abort\<close> ends the run.
\<close>

record mpi_env =
  malloc_ok :: bool
  fopen_ok :: bool
  rank :: nat
  sz :: nat

datatype abort = MPI_Abort

text \<open>
  The result of \<open>walkers\<close>: the value it returns, \<open>*postMax\<close>, the caller's
  \<open>Aparam\<close> after the last copy loop (\<open>None\<close> where that loop has read an
  \<open>AparamMax\<close> that was never written), and the rows this process has written to the
  chain file, with \<open>True\<close> for the mode \<open>w\<close> and \<open>False\<close> for \<open>a\<close>.
\<close>

record walk_result =
  acceptance :: double
  out_postMax :: double
  out_Aparam :: "double list option"
  out_file :: "(bool \<times> double list option list) option"

definition walkers ::
  "mpi_env \<Rightarrow> (nat \<Rightarrow> uint32) \<Rightarrow> nat \<Rightarrow> nat \<Rightarrow> double list \<Rightarrow> double list \<Rightarrow> nat
    \<Rightarrow> double list \<Rightarrow> double list \<Rightarrow> double list \<Rightarrow> double list \<Rightarrow> abort + walk_result" where
  "walkers env draws Nchain Nparam Aparam dev Npts uCo vCo Vis Sigma' =
     (if \<not> malloc_ok env then Inl MPI_Abort
      else
        let s = walk_loop draws Nparam dev Npts uCo vCo Vis Sigma' Nchain
                  (walk_init Nchain Nparam Aparam Npts uCo vCo Vis Sigma')
        in if rank env < sz env \<and> \<not> fopen_ok env then Inl MPI_Abort
           else Inr \<lparr> acceptance = Fin (real (st_accept s)) / (Fin 1 * Fin (real Nchain)),
                      out_postMax = st_postMax s,
                      out_Aparam = map_option (\<lambda>AparamMax. copy_params Nparam AparamMax (st_Aparam s))
                                     (st_AparamMax s),
                      out_file = (if rank env < sz env
                                  then Some (rank env = 0,
                                             map (\<lambda>ichain. st_chains s ! (ichain - 1)) [1..<Suc Nchain])
                                  else None) \<rparr>)"

text \<open>
  The state of \<open>walkers\<close> after \<open>k\<close> iterations of the loop over \<open>ichain\<close>, the
  candidate \<open>AparamPlusOne\<close> that the iteration starting in state \<open>s\<close> proposes, and
  the outcome of its test \<^verbatim>\<open>probpost>=probpre+log(probRandom)\<close>.
\<close>

definition chain_state ::
  "(nat \<Rightarrow> uint32) \<Rightarrow> nat \<Rightarrow> double list \<Rightarrow> nat \<Rightarrow> double list \<Rightarrow> double list
    \<Rightarrow> double list \<Rightarrow> double list \<Rightarrow> nat \<Rightarrow> double list \<Rightarrow> nat \<Rightarrow> walker" where
  "chain_state draws Nparam dev Npts uCo vCo Vis Sigma' Nchain Aparam k =
     walk_loop draws Nparam dev Npts uCo vCo Vis Sigma' k
       (walk_init Nchain Nparam Aparam Npts uCo vCo Vis Sigma')"

definition candidate :: "(nat \<Rightarrow> uint32) \<Rightarrow> nat \<Rightarrow> double list \<Rightarrow> walker \<Rightarrow> double list" where
  "candidate draws Nparam dev s = fst (propose draws (st_Aparam s) dev [1..<Suc Nparam] (st_pos s))"

definition accepted ::
  "(nat \<Rightarrow> uint32) \<Rightarrow> nat \<Rightarrow> double list \<Rightarrow> nat \<Rightarrow> double list \<Rightarrow> double list
    \<Rightarrow> double list \<Rightarrow> double list \<Rightarrow> walker \<Rightarrow> bool" where
  "accepted draws Nparam dev Npts uCo vCo Vis Sigma' s \<longleftrightarrow>
     st_probpre s
       + c_log (uniform01 (draws (snd (propose draws (st_Aparam s) dev [1..<Suc Nparam] (st_pos s)))))
     \<le> post Nparam (candidate draws Nparam dev s) Npts uCo vCo Vis Sigma'"

section \<open>Concrete inputs\<close>

text \<open>
  Parameter vectors \<open>[flux1, width1, dx2, dy2, flux2, width2]\<close>, step deviations,
  sequences of draws and a one-process MPI environment, for the runs that are evaluated
  below. The data set used with them is the single point \<open>u = v = 0\<close>, \<open>Vis = 2\<close>,
  \<open>Sigma = 1\<close>, at which the model of \<open>unit_params\<close> is exactly \<open>2\<close>.
\<close>

definition unit_params :: "double list" where
  "unit_params = [Fin 1, Fin 1, Fin 0, Fin 0, Fin 1, Fin 1]"

definition negative_flux_params :: "double list" where
  "negative_flux_params = [Fin (- 1), Fin 1, Fin 0, Fin 0, Fin 1, Fin 1]"

definition zero_flux_params :: "double list" where
  "zero_flux_params = [Fin 0, Fin 1, Fin 0, Fin 0, Fin 1, Fin 1]"

definition negative_flux_zero_width_params :: "double list" where
  "negative_flux_zero_width_params = [Fin (- 1), Fin 0, Fin 0, Fin 0, Fin 1, Fin 1]"

definition negative_pair_params :: "double list" where
  "negative_pair_params = [Fin (- 2), Fin (- 1), NaN, PInf, Fin 1, Fin 1]"


definition half_dev :: "double list" where
  "half_dev = [Fin (1 / 2), Fin 0, Fin 0, Fin 0, Fin 0, Fin 0]"

definition zero_draws :: "nat \<Rightarrow> uint32" where
  "zero_draws n = 0"

text \<open>
  \<open>up_draws\<close>: the second draw \<open>0x55555555\<close> is \<open>(2^32 - 1) / 3\<close>, so that
  \<open>y2 = 5/6\<close> and \<open>cos (2 pi y2) = 1/2\<close>; the first Gaussian step is upwards.
  \<open>nan_draws\<close>: the first draw \<open>0x80000000\<close> is \<open>-2^31\<close> as an \<open>int\<close>.
\<close>

definition up_draws :: "nat \<Rightarrow> uint32" where
  "up_draws n = (if n = 1 then 0x55555555 else 0)"

definition nan_draws :: "nat \<Rightarrow> uint32" where
  "nan_draws n = (if n = 0 then 0x80000000 else 0)"

definition one_rank :: mpi_env where
  "one_rank = \<lparr> malloc_ok = True, fopen_ok = True, rank = 0, sz = 1 \<rparr>"

section \<open>Order on doubles\<close>

text \<open>
  \<open>\<le>\<close> and \<open><\<close> on doubles are those of C, so they are a linear order only
  away from NaN.
\<close>

lemma double_le_refl: "a \<noteq> NaN \<Longrightarrow> a \<le> (a::double)"
  by (cases a) simp_all

lemma double_less_imp_le: "a < b \<Longrightarrow> a \<le> (b::double)"
  by (cases a; cases b) simp_all

lemma double_le_trans: "a \<le> b \<Longrightarrow> b \<le> c \<Longrightarrow> a \<le> (c::double)"
  by (cases a; cases b; cases c) simp_all

lemma double_less_not_NaN: "a < (b::double) \<Longrightarrow> b \<noteq> NaN"
  by (cases a; cases b) simp_all

lemma double_le_not_NaN: "a \<le> (b::double) \<Longrightarrow> b \<noteq> NaN"
  by (cases a; cases b) simp_all

lemma double_not_less_le: "a \<noteq> NaN \<Longrightarrow> b \<noteq> NaN \<Longrightarrow> \<not> a < b \<Longrightarrow> b \<le> (a::double)"
  by (cases a; cases b) simp_all

section \<open>The loops over the parameters\<close>

lemma copy_params_prefix:
  "k \<le> length src \<Longrightarrow> k \<le> length dst \<Longrightarrow> copy_params k src dst = take k src @ drop k dst"
proof (induction k)
  case 0
  then show ?case by (simp add: copy_params_def)
next
  case (Suc k)
  then have "copy_params (Suc k) src dst = (take k src @ drop k dst)[k := src ! k]"
    by (simp add: copy_params_def)
  also have "\<dots> = take (Suc k) src @ drop (Suc k) dst"
    using Suc.prems
    by (simp add: list_update_append take_Suc_conv_app_nth upd_conv_take_nth_drop drop_Suc flip: Cons_nth_drop_Suc)
  finally show ?case .
qed

lemma copy_params_full:
  "length src = Nparam \<Longrightarrow> length dst = Nparam \<Longrightarrow> copy_params Nparam src dst = src"
  by (simp add: copy_params_prefix)

lemma length_copy_params: "length (copy_params Nparam src dst) = length dst"
proof -
  have "length (foldl (\<lambda>a iparam. a[iparam - 1 := src ! (iparam - 1)]) dst xs) = length dst" for xs
    by (induction xs arbitrary: dst) simp_all
  then show ?thesis by (simp add: copy_params_def)
qed

lemma fill_params_full: "length src = Nparam \<Longrightarrow> fill_params Nparam src = src"
  unfolding fill_params_def
  by (rule nth_equalityI) (simp_all del: upt_Suc)

lemma length_fill_params: "length (fill_params Nparam src) = Nparam"
  by (simp add: fill_params_def del: upt_Suc)

lemma length_propose: "length (fst (propose draws Aparam dev is pos)) = length is"
  by (induction "is" arbitrary: pos) (simp_all add: Let_def case_prod_beta)

lemma length_candidate: "length (candidate draws Nparam dev s) = Nparam"
  by (simp add: candidate_def length_propose del: upt_Suc)

lemma nth_map_Fin:
  assumes "6 \<le> length ps"
  shows "map Fin ps ! 0 = Fin (ps ! 0)" "map Fin ps ! Suc 0 = Fin (ps ! Suc 0)"
    "map Fin ps ! 2 = Fin (ps ! 2)" "map Fin ps ! 3 = Fin (ps ! 3)"
    "map Fin ps ! 4 = Fin (ps ! 4)" "map Fin ps ! 5 = Fin (ps ! 5)"
proof -
  from assms have "0 < length ps" "Suc 0 < length ps" "2 < length ps" "3 < length ps"
    "4 < length ps" "5 < length ps"
    by linarith+
  then show "map Fin ps ! 0 = Fin (ps ! 0)" "map Fin ps ! Suc 0 = Fin (ps ! Suc 0)"
    "map Fin ps ! 2 = Fin (ps ! 2)" "map Fin ps ! 3 = Fin (ps ! 3)"
    "map Fin ps ! 4 = Fin (ps ! 4)" "map Fin ps ! 5 = Fin (ps ! 5)"
    by (simp_all only: nth_map)
qed

section \<open>One iteration of the sampler\<close>

text \<open>What \<open>walk_step\<close> does to each variable of the loop.\<close>

lemma walk_step_probpre:
  "st_probpre (walk_step draws Nparam dev Npts uCo vCo Vis Sigma' s ichain) = st_probpre s"
  by (simp add: walk_step_def Let_def randomMT_def split: prod.splits del: upt_Suc)

lemma walk_step_Aparam:
  "st_Aparam (walk_step draws Nparam dev Npts uCo vCo Vis Sigma' s ichain) =
     (if accepted draws Nparam dev Npts uCo vCo Vis Sigma' s
      then copy_params Nparam (candidate draws Nparam dev s) (st_Aparam s) else st_Aparam s)"
  by (simp add: walk_step_def accepted_def candidate_def Let_def randomMT_def split: prod.splits del: upt_Suc)

lemma walk_step_accept:
  "st_accept (walk_step draws Nparam dev Npts uCo vCo Vis Sigma' s ichain) =
     (if accepted draws Nparam dev Npts uCo vCo Vis Sigma' s then st_accept s + 1 else st_accept s)"
  by (simp add: walk_step_def accepted_def candidate_def Let_def randomMT_def split: prod.splits del: upt_Suc)

lemma walk_step_postMax:
  "st_postMax (walk_step draws Nparam dev Npts uCo vCo Vis Sigma' s ichain) =
     (if accepted draws Nparam dev Npts uCo vCo Vis Sigma' s
        \<and> st_postMax s < post Nparam (candidate draws Nparam dev s) Npts uCo vCo Vis Sigma'
      then post Nparam (candidate draws Nparam dev s) Npts uCo vCo Vis Sigma' else st_postMax s)"
  by (simp add: walk_step_def accepted_def candidate_def Let_def randomMT_def split: prod.splits del: upt_Suc)

lemma walk_step_AparamMax:
  "st_AparamMax (walk_step draws Nparam dev Npts uCo vCo Vis Sigma' s ichain) =
     (if accepted draws Nparam dev Npts uCo vCo Vis Sigma' s
        \<and> st_postMax s < post Nparam (candidate draws Nparam dev s) Npts uCo vCo Vis Sigma'
      then Some (fill_params Nparam (copy_params Nparam (candidate draws Nparam dev s) (st_Aparam s)))
      else st_AparamMax s)"
  by (simp add: walk_step_def accepted_def candidate_def Let_def randomMT_def split: prod.splits del: upt_Suc)

lemma walk_step_chains:
  "st_chains (walk_step draws Nparam dev Npts uCo vCo Vis Sigma' s ichain) =
     (st_chains s)[ichain - 1 :=
        Some (fill_params Nparam (st_Aparam (walk_step draws Nparam dev Npts uCo vCo Vis Sigma' s ichain)))]"
  by (simp add: walk_step_def accepted_def candidate_def Let_def randomMT_def split: prod.splits del: upt_Suc)

lemma walk_step_length_chains:
  "length (st_chains (walk_step draws Nparam dev Npts uCo vCo Vis Sigma' s ichain)) = length (st_chains s)"
  by (subst walk_step_chains) simp

lemma walk_step_length_Aparam:
  "length (st_Aparam (walk_step draws Nparam dev Npts uCo vCo Vis Sigma' s ichain)) = length (st_Aparam s)"
  by (simp add: walk_step_Aparam length_copy_params)

lemma walk_step_postMax_mono:
  assumes "st_postMax s \<noteq> NaN"
  shows "st_postMax s \<le> st_postMax (walk_step draws Nparam dev Npts uCo vCo Vis Sigma' s ichain)"
    and "st_postMax (walk_step draws Nparam dev Npts uCo vCo Vis Sigma' s ichain) \<noteq> NaN"
  using assms
  by (auto simp: walk_step_postMax double_le_refl double_less_imp_le dest: double_less_not_NaN)

section \<open>The loop over the chain\<close>

lemma walk_loop_0: "walk_loop draws Nparam dev Npts uCo vCo Vis Sigma' 0 s = s"
  by (simp add: walk_loop_def)

lemma walk_loop_Suc:
  "walk_loop draws Nparam dev Npts uCo vCo Vis Sigma' (Suc n) s =
     walk_step draws Nparam dev Npts uCo vCo Vis Sigma'
       (walk_loop draws Nparam dev Npts uCo vCo Vis Sigma' n s) (Suc n)"
  by (simp add: walk_loop_def)

lemma walk_loop_postMax_not_NaN:
  "st_postMax s \<noteq> NaN \<Longrightarrow>
   st_postMax (walk_loop draws Nparam dev Npts uCo vCo Vis Sigma' n s) \<noteq> NaN"
  by (induction n) (simp_all add: walk_loop_0 walk_loop_Suc walk_step_postMax_mono(2))

lemma walk_loop_accept_le:
  "st_accept (walk_loop draws Nparam dev Npts uCo vCo Vis Sigma' n s) \<le> st_accept s + n"
  by (induction n) (simp_all add: walk_loop_0 walk_loop_Suc walk_step_accept)

lemma walk_loop_accept_step:
  "st_accept (walk_loop draws Nparam dev Npts uCo vCo Vis Sigma' (Suc n) s) =
     st_accept (walk_loop draws Nparam dev Npts uCo vCo Vis Sigma' n s)
   \<or> st_accept (walk_loop draws Nparam dev Npts uCo vCo Vis Sigma' (Suc n) s) =
     st_accept (walk_loop draws Nparam dev Npts uCo vCo Vis Sigma' n s) + 1"
  by (simp add: walk_loop_Suc walk_step_accept)

lemma walk_loop_length_chains:
  "length (st_chains (walk_loop draws Nparam dev Npts uCo vCo Vis Sigma' n s)) = length (st_chains s)"
  by (induction n) (simp_all add: walk_loop_0 walk_loop_Suc walk_step_length_chains)

lemma walk_loop_length_Aparam:
  "length (st_Aparam (walk_loop draws Nparam dev Npts uCo vCo Vis Sigma' n s)) = length (st_Aparam s)"
  by (induction n) (simp_all add: walk_loop_0 walk_loop_Suc walk_step_length_Aparam)

lemma walk_loop_chains_row:
  assumes "n \<le> length (st_chains s)" "1 \<le> i" "i \<le> n"
  shows "st_chains (walk_loop draws Nparam dev Npts uCo vCo Vis Sigma' n s) ! (i - 1) =
           Some (fill_params Nparam (st_Aparam (walk_loop draws Nparam dev Npts uCo vCo Vis Sigma' i s)))"
  using assms
proof (induction n)
  case 0
  then show ?case by simp
next
  case (Suc n)
  let ?L = "walk_loop draws Nparam dev Npts uCo vCo Vis Sigma'"
  have len: "n < length (st_chains (?L n s))"
    using Suc.prems(1) by (simp add: walk_loop_length_chains)
  show ?case
  proof (cases "i = Suc n")
    case True
    then show ?thesis
      using len by (simp add: walk_loop_Suc [of _ _ _ _ _ _ _ _ n] walk_step_chains [of _ _ _ _ _ _ _ _ "?L n s"])
  next
    case False
    with Suc.prems have "i \<le> n" "i - 1 \<noteq> n" by auto
    then show ?thesis
      using Suc.IH Suc.prems
      by (simp add: walk_loop_Suc [of _ _ _ _ _ _ _ _ n] walk_step_chains [of _ _ _ _ _ _ _ _ "?L n s"])
  qed
qed

lemma chain_state_0:
  "chain_state draws Nparam dev Npts uCo vCo Vis Sigma' Nchain Aparam 0 =
     walk_init Nchain Nparam Aparam Npts uCo vCo Vis Sigma'"
  by (simp add: chain_state_def walk_loop_0)

lemma chain_state_Suc:
  "chain_state draws Nparam dev Npts uCo vCo Vis Sigma' Nchain Aparam (Suc k) =
     walk_step draws Nparam dev Npts uCo vCo Vis Sigma'
       (chain_state draws Nparam dev Npts uCo vCo Vis Sigma' Nchain Aparam k) (Suc k)"
  by (simp add: chain_state_def walk_loop_Suc)

lemma chain_state_postMax_not_NaN:
  "st_postMax (chain_state draws Nparam dev Npts uCo vCo Vis Sigma' Nchain Aparam k) \<noteq> NaN"
  unfolding chain_state_def
  by (rule walk_loop_postMax_not_NaN) (simp add: walk_init_def sentinel_def)

lemma chain_state_postMax_step:
  "st_postMax (chain_state draws Nparam dev Npts uCo vCo Vis Sigma' Nchain Aparam k)
     \<le> st_postMax (chain_state draws Nparam dev Npts uCo vCo Vis Sigma' Nchain Aparam (Suc k))"
  unfolding chain_state_Suc
  by (rule walk_step_postMax_mono(1)) (rule chain_state_postMax_not_NaN)

lemma chain_state_postMax_mono:
  "j \<le> n \<Longrightarrow>
   st_postMax (chain_state draws Nparam dev Npts uCo vCo Vis Sigma' Nchain Aparam j)
     \<le> st_postMax (chain_state draws Nparam dev Npts uCo vCo Vis Sigma' Nchain Aparam n)"
proof (induction n)
  case 0
  then show ?case by (simp add: double_le_refl chain_state_postMax_not_NaN)
next
  case (Suc n)
  show ?case
  proof (cases "j = Suc n")
    case True
    then show ?thesis by (simp add: double_le_refl chain_state_postMax_not_NaN)
  next
    case False
    with Suc.prems have "j \<le> n" by simp
    from Suc.IH [OF this] chain_state_postMax_step show ?thesis by (rule double_le_trans)
  qed
qed

lemma chain_state_accepted_le:
  assumes "accepted draws Nparam dev Npts uCo vCo Vis Sigma'
             (chain_state draws Nparam dev Npts uCo vCo Vis Sigma' Nchain Aparam k)"
  shows "post Nparam (candidate draws Nparam dev
             (chain_state draws Nparam dev Npts uCo vCo Vis Sigma' Nchain Aparam k)) Npts uCo vCo Vis Sigma'
         \<le> st_postMax (chain_state draws Nparam dev Npts uCo vCo Vis Sigma' Nchain Aparam (Suc k))"
proof -
  let ?s = "chain_state draws Nparam dev Npts uCo vCo Vis Sigma' Nchain Aparam k"
  let ?p = "post Nparam (candidate draws Nparam dev ?s) Npts uCo vCo Vis Sigma'"
  have p: "?p \<noteq> NaN" using assms unfolding accepted_def by (rule double_le_not_NaN)
  have m: "st_postMax ?s \<noteq> NaN" by (rule chain_state_postMax_not_NaN)
  show ?thesis
    unfolding chain_state_Suc walk_step_postMax
    using assms p m by (simp add: double_le_refl double_not_less_le)
qed

lemma chain_state_length_Aparam:
  "length (st_Aparam (chain_state draws Nparam dev Npts uCo vCo Vis Sigma' Nchain Aparam k)) = length Aparam"
  by (simp add: chain_state_def walk_loop_length_Aparam walk_init_def)

lemma chain_state_Aparam_step:
  assumes "length Aparam = Nparam"
  shows "st_Aparam (chain_state draws Nparam dev Npts uCo vCo Vis Sigma' Nchain Aparam (Suc k)) =
     (if accepted draws Nparam dev Npts uCo vCo Vis Sigma'
           (chain_state draws Nparam dev Npts uCo vCo Vis Sigma' Nchain Aparam k)
      then candidate draws Nparam dev (chain_state draws Nparam dev Npts uCo vCo Vis Sigma' Nchain Aparam k)
      else st_Aparam (chain_state draws Nparam dev Npts uCo vCo Vis Sigma' Nchain Aparam k))"
  unfolding chain_state_Suc walk_step_Aparam
  using assms by (simp add: copy_params_full length_candidate chain_state_length_Aparam)

lemma chain_state_AparamMax:
  assumes "length Aparam = Nparam"
  shows "case st_AparamMax (chain_state draws Nparam dev Npts uCo vCo Vis Sigma' Nchain Aparam n) of
           None \<Rightarrow> st_postMax (chain_state draws Nparam dev Npts uCo vCo Vis Sigma' Nchain Aparam n) = sentinel
         | Some m \<Rightarrow>
             post Nparam m Npts uCo vCo Vis Sigma'
               = st_postMax (chain_state draws Nparam dev Npts uCo vCo Vis Sigma' Nchain Aparam n)
             \<and> (\<exists>k<n. accepted draws Nparam dev Npts uCo vCo Vis Sigma'
                        (chain_state draws Nparam dev Npts uCo vCo Vis Sigma' Nchain Aparam k)
                   \<and> m = candidate draws Nparam dev
                        (chain_state draws Nparam dev Npts uCo vCo Vis Sigma' Nchain Aparam k))"
proof (induction n)
  case 0
  show ?case by (simp add: chain_state_0 walk_init_def)
next
  case (Suc n)
  let ?s = "chain_state draws Nparam dev Npts uCo vCo Vis Sigma' Nchain Aparam n"
  let ?c = "candidate draws Nparam dev ?s"
  have fc: "fill_params Nparam (copy_params Nparam ?c (st_Aparam ?s)) = ?c"
    using assms by (simp add: copy_params_full fill_params_full length_candidate chain_state_length_Aparam)
  show ?case
  proof (cases "accepted draws Nparam dev Npts uCo vCo Vis Sigma' ?s
                \<and> st_postMax ?s < post Nparam ?c Npts uCo vCo Vis Sigma'")
    case True
    then show ?thesis
      unfolding chain_state_Suc walk_step_AparamMax walk_step_postMax fc
      by auto
  next
    case False
    have "st_AparamMax (chain_state draws Nparam dev Npts uCo vCo Vis Sigma' Nchain Aparam (Suc n))
            = st_AparamMax ?s"
      "st_postMax (chain_state draws Nparam dev Npts uCo vCo Vis Sigma' Nchain Aparam (Suc n))
            = st_postMax ?s"
      using False by (auto simp add: chain_state_Suc walk_step_AparamMax walk_step_postMax)
    then show ?thesis
      using Suc.IH by (auto split: option.splits intro: less_SucI)
  qed
qed

text \<open>
  \<open>walkers\<close> returns unless \<open>malloc\<close> fails or the process cannot open the chain
  file at its turn.
\<close>

lemma walkers_returns:
  assumes "malloc_ok env" "rank env < sz env \<longrightarrow> fopen_ok env"
  shows "walkers env draws Nchain Nparam Aparam dev Npts uCo vCo Vis Sigma' =
     Inr \<lparr> acceptance =
             Fin (real (st_accept (chain_state draws Nparam dev Npts uCo vCo Vis Sigma' Nchain Aparam Nchain)))
               / (Fin 1 * Fin (real Nchain)),
           out_postMax = st_postMax (chain_state draws Nparam dev Npts uCo vCo Vis Sigma' Nchain Aparam Nchain),
           out_Aparam = map_option
             (\<lambda>AparamMax. copy_params Nparam AparamMax
                (st_Aparam (chain_state draws Nparam dev Npts uCo vCo Vis Sigma' Nchain Aparam Nchain)))
             (st_AparamMax (chain_state draws Nparam dev Npts uCo vCo Vis Sigma' Nchain Aparam Nchain)),
           out_file = (if rank env < sz env
                       then Some (rank env = 0,
                                  map (\<lambda>ichain. st_chains (chain_state draws Nparam dev Npts uCo vCo Vis Sigma' Nchain Aparam Nchain) ! (ichain - 1))
                                    [1..<Suc Nchain])
                       else None) \<rparr>"
  using assms by (auto simp add: walkers_def chain_state_def Let_def simp del: upt_Suc)

section \<open>Two runs of one iteration\<close>

text \<open>
  A draw of \<open>0\<close> is \<open>y = 0.5\<close>: \<open>sqrt (-2 ln 0.5) = sqrt (2 ln 2)\<close> and
  \<open>cos (2 pi 0.5) = -1\<close>, so \<open>gauss\<close> steps by \<open>- sigma * sqrt (2 ln 2)\<close>.
\<close>

lemma upt_1_7: "[1..<Suc 6] = [1, 2, 3, 4, 5, 6]"
  by (simp add: upt_rec)

lemma uniform01_0: "uniform01 0 = Fin (1 / 2)"
  by (simp add: uniform01_def MTMAX_def)

lemma gauss_zero_draws:
  assumes "draws pos = 0" "draws (Suc pos) = 0"
  shows "gauss draws (Fin s) pos = (Fin (- (s * sqrt (2 * ln 2))), Suc (Suc pos))"
proof -
  have "ln (1 / 2 :: real) = - ln 2" by (simp add: ln_div)
  moreover have "0 \<le> ln (2::real)" by simp
  ultimately show ?thesis
    using assms by (simp add: gauss_def randomMT_def uniform01_0 M_PI_def Let_def)
qed

lemma uniform01_third: "uniform01 0x55555555 = Fin (5 / 6)"
  by (simp add: uniform01_def MTMAX_def)

lemma cos_5pi_3: "cos (5 * pi / 3) = (1 / 2 :: real)"
proof -
  have "5 * pi / 3 = 2 * pi - pi / 3" by simp
  then show ?thesis by (simp only: cos_2pi_minus cos_60)
qed

lemma gauss_up_draws:
  "gauss up_draws (Fin s) 0 = (Fin (s * sqrt (2 * ln 2) / 2), 2)"
proof -
  have "ln (1 / 2 :: real) = - ln 2" by (simp add: ln_div)
  moreover have "0 \<le> ln (2::real)" by simp
  ultimately show ?thesis
    by (simp add: gauss_def randomMT_def up_draws_def uniform01_0 uniform01_third M_PI_def Let_def cos_5pi_3)
qed

lemma ln2_ge_half: "1 / 2 \<le> ln (2::real)"
proof -
  have "ln (1 / 2 :: real) \<le> 1 / 2 - 1" by (rule ln_le_minus_one) simp
  moreover have "ln (1 / 2 :: real) = - ln 2" by (simp add: ln_div)
  ultimately show ?thesis by simp
qed

lemma sqrt_2ln2_bounds: "0 < sqrt (2 * ln 2 :: real)" "sqrt (2 * ln 2 :: real) < 2"
proof -
  show "0 < sqrt (2 * ln 2 :: real)" by simp
  have "2 * ln (2::real) < 2 * 1" using ln_2_less_1 by simp
  then have "sqrt (2 * ln 2 :: real) < sqrt 4"
    by (intro real_sqrt_less_mono) simp
  then show "sqrt (2 * ln 2 :: real) < 2" by simp
qed

lemma model_origin:
  "model (Fin 0) (Fin 0) Nparam [Fin f1, Fin w1, Fin dx, Fin dy, Fin f2, Fin w2] = Fin \<bar>f1 + f2\<bar>"
  by (simp add: model_def Let_def M_PI_def muarcsecToRad_def)

lemma propose_half_dev:
  "propose zero_draws unit_params half_dev [1..<Suc 6] 0 =
     ([Fin (1 - sqrt (2 * ln 2) / 2), Fin 1, Fin 0, Fin 0, Fin 1, Fin 1], 12)"
proof -
  have g: "gauss zero_draws (Fin s) n = (Fin (- (s * sqrt (2 * ln 2))), Suc (Suc n))" for s n
    by (rule gauss_zero_draws) (simp_all add: zero_draws_def)
  show ?thesis
    unfolding upt_1_7
    by (simp add: g unit_params_def half_dev_def)
qed

lemma propose_up_draws:
  "propose up_draws unit_params half_dev [1..<Suc 6] 0 =
     ([Fin (1 + sqrt (2 * ln 2) / 4), Fin 1, Fin 0, Fin 0, Fin 1, Fin 1], 12)"
proof -
  have g: "gauss up_draws (Fin 0) n = (Fin 0, Suc (Suc n))" if "2 \<le> n" for n
    using gauss_zero_draws [of up_draws n 0] that by (simp add: up_draws_def)
  show ?thesis
    unfolding upt_1_7
    by (simp add: g gauss_up_draws unit_params_def half_dev_def)
qed

lemma post_unit_params: "post 6 unit_params 1 [Fin 0] [Fin 0] [Fin 2] [Fin 1] = Fin 0"
  by (simp add: post_def prior_def like_def chi2_step_def unit_params_def model_origin minus_double_def)

lemma post_half_step:
  "post 6 [Fin (1 - sqrt (2 * ln 2) / 2), Fin 1, Fin 0, Fin 0, Fin 1, Fin 1] 1
      [Fin 0] [Fin 0] [Fin 2] [Fin 1] =
     Fin (- ln (1 - sqrt (2 * ln 2) / 2) - ln 2 / 2)"
proof -
  let ?c = "sqrt (2 * ln 2 :: real)"
  have c: "0 < ?c" "?c < 2" by (rule sqrt_2ln2_bounds)+
  have sq: "?c * ?c = 2 * ln 2" by simp
  have pos: "0 < 1 - ?c / 2" using c by simp
  have m: "model (Fin 0) (Fin 0) 6 [Fin (1 - ?c / 2), Fin 1, Fin 0, Fin 0, Fin 1, Fin 1]
             = Fin (2 - ?c / 2)"
    using c by (simp add: model_origin)
  have l: "like 6 [Fin (1 - ?c / 2), Fin 1, Fin 0, Fin 0, Fin 1, Fin 1] 1
             [Fin 0] [Fin 0] [Fin 2] [Fin 1] = Fin (- (ln 2 / 2))"
    using pos sq by (simp add: like_def chi2_step_def m minus_double_def del: real_sqrt_mult_self)
  have p: "prior 6 [Fin (1 - ?c / 2), Fin 1, Fin 0, Fin 0, Fin 1, Fin 1] = Fin (- ln (1 - ?c / 2))"
    using pos by (simp add: prior_def)
  show ?thesis unfolding post_def l p by simp
qed

lemma post_half_step_pos: "0 < - ln (1 - sqrt (2 * ln 2) / 2) - ln 2 / (2::real)"
proof -
  let ?c = "sqrt (2 * ln 2 :: real)"
  have c: "0 < ?c" "?c < 2" by (rule sqrt_2ln2_bounds)+
  have sq: "?c * ?c = 2 * ln 2" by simp
  have "ln (1 - ?c / 2) \<le> - (?c / 2)"
    using c by (intro ln_one_minus_pos_upper_bound) simp_all
  moreover have "ln 2 / 2 = ?c * ?c / 4" using sq by simp
  moreover have "?c * ?c / 4 < ?c / 2"
  proof -
    have "?c * ?c < ?c * 2" using c by (intro mult_strict_left_mono) simp_all
    then show ?thesis by simp
  qed
  ultimately show ?thesis by linarith
qed

lemma post_up_step:
  "post 6 [Fin (1 + sqrt (2 * ln 2) / 4), Fin 1, Fin 0, Fin 0, Fin 1, Fin 1] 1
      [Fin 0] [Fin 0] [Fin 2] [Fin 1] =
     Fin (- ln (1 + sqrt (2 * ln 2) / 4) - ln 2 / 8)"
proof -
  let ?c = "sqrt (2 * ln 2 :: real)"
  have c: "0 < ?c" by (rule sqrt_2ln2_bounds)
  have sq: "?c * ?c = 2 * ln 2" by simp
  have pos: "0 < 1 + ?c / 4" "\<not> 1 + ?c / 4 < 0" using c by linarith+
  have m: "model (Fin 0) (Fin 0) 6 [Fin (1 + ?c / 4), Fin 1, Fin 0, Fin 0, Fin 1, Fin 1]
             = Fin (2 + ?c / 4)"
    using c by (simp add: model_origin)
  have l: "like 6 [Fin (1 + ?c / 4), Fin 1, Fin 0, Fin 0, Fin 1, Fin 1] 1
             [Fin 0] [Fin 0] [Fin 2] [Fin 1] = Fin (- (ln 2 / 8))"
    using pos sq by (simp add: like_def chi2_step_def m minus_double_def del: real_sqrt_mult_self)
  have p: "prior 6 [Fin (1 + ?c / 4), Fin 1, Fin 0, Fin 0, Fin 1, Fin 1] = Fin (- ln (1 + ?c / 4))"
    using pos by (simp add: prior_def)
  show ?thesis unfolding post_def l p by simp
qed

lemma post_up_step_bounds:
  "- ln (1 + sqrt (2 * ln 2) / 4) - ln 2 / 8 < (0::real)"
  "ln (1 / 2 :: real) \<le> - ln (1 + sqrt (2 * ln 2) / 4) - ln 2 / 8"
proof -
  let ?c = "sqrt (2 * ln 2 :: real)"
  have c: "0 < ?c" by (rule sqrt_2ln2_bounds)
  have l2: "0 < ln (2::real)" by simp
  have "1 < 1 + ?c / 4" using c by linarith
  then have "0 < ln (1 + ?c / 4)" by (rule ln_gt_zero)
  with l2 show "- ln (1 + ?c / 4) - ln 2 / 8 < 0" by linarith
  have up: "ln (1 + ?c / 4) \<le> ?c / 4"
    using c by (intro ln_add_one_self_le_self) simp
  have "8 * ln 2 \<le> 49 * ln 2 * ln (2::real)"
    using ln2_ge_half l2 by (simp add: mult_right_mono)
  then have "2 * ln (2::real) \<le> (7 * ln 2 / 2)\<^sup>2"
    by (simp add: power2_eq_square)
  moreover have "0 \<le> 7 * ln (2::real) / 2" by simp
  ultimately have "?c \<le> 7 * ln 2 / 2"
    by (intro real_le_lsqrt)
  moreover have "ln (1 / 2 :: real) = - ln 2" by (simp add: ln_div)
  ultimately show "ln (1 / 2 :: real) \<le> - ln (1 + ?c / 4) - ln 2 / 8"
    using up by linarith
qed

text \<open>
  With \<open>half_dev\<close> and draws of \<open>0\<close> the first candidate lowers \<open>flux1\<close> to
  \<open>1 - sqrt (2 ln 2) / 2\<close>, has a higher posterior than \<open>unit_params\<close> and is
  accepted. With \<open>up_draws\<close> it raises \<open>flux1\<close> to \<open>1 + sqrt (2 ln 2) / 4\<close>, has
  a lower posterior than \<open>unit_params\<close>, by less than \<open>ln 2\<close>, and is accepted
  against \<open>probRandom = 0.5\<close>.
\<close>

lemma half_step_state:
  "chain_state zero_draws 6 half_dev 1 [Fin 0] [Fin 0] [Fin 2] [Fin 1] 1 unit_params 1 =
     \<lparr> st_Aparam = [Fin (1 - sqrt (2 * ln 2) / 2), Fin 1, Fin 0, Fin 0, Fin 1, Fin 1],
       st_AparamMax = Some [Fin (1 - sqrt (2 * ln 2) / 2), Fin 1, Fin 0, Fin 0, Fin 1, Fin 1],
       st_postMax = Fin (- ln (1 - sqrt (2 * ln 2) / 2) - ln 2 / 2),
       st_probpre = Fin 0,
       st_accept = 1,
       st_chains = [Some [Fin (1 - sqrt (2 * ln 2) / 2), Fin 1, Fin 0, Fin 0, Fin 1, Fin 1]],
       st_pos = 13 \<rparr>"
proof -
  let ?cand = "[Fin (1 - sqrt (2 * ln 2) / 2), Fin 1, Fin 0, Fin 0, Fin 1, Fin 1]"
  have len: "length ?cand = 6" "length unit_params = 6" by (simp_all add: unit_params_def)
  have cp: "copy_params 6 ?cand unit_params = ?cand" by (rule copy_params_full [OF len])
  have fp: "fill_params 6 ?cand = ?cand" by (rule fill_params_full [OF len(1)])
  have ln: "ln (1 / 2 :: real) \<le> - ln (1 - sqrt (2 * ln 2) / 2) - ln 2 / 2"
  proof -
    have "ln (1 / 2 :: real) = - ln 2" by (simp add: ln_div)
    moreover have "0 < ln (2::real)" by simp
    ultimately show ?thesis using post_half_step_pos by linarith
  qed
  have big: "- (10 ^ 34) < - ln (1 - sqrt (2 * ln 2) / 2) - ln 2 / (2::real)"
    using post_half_step_pos by simp
  have "chain_state zero_draws 6 half_dev 1 [Fin 0] [Fin 0] [Fin 2] [Fin 1] 1 unit_params 1 =
        walk_step zero_draws 6 half_dev 1 [Fin 0] [Fin 0] [Fin 2] [Fin 1]
          (walk_init 1 6 unit_params 1 [Fin 0] [Fin 0] [Fin 2] [Fin 1]) 1"
    using chain_state_Suc [of zero_draws 6 half_dev 1 "[Fin 0]" "[Fin 0]" "[Fin 2]" "[Fin 1]" 1 unit_params 0]
    by (simp add: chain_state_0)
  also have "\<dots> = \<lparr> st_Aparam = ?cand, st_AparamMax = Some ?cand,
       st_postMax = Fin (- ln (1 - sqrt (2 * ln 2) / 2) - ln 2 / 2),
       st_probpre = Fin 0, st_accept = 1, st_chains = [Some ?cand], st_pos = 13 \<rparr>"
    unfolding walk_step_def walk_init_def walker.select_convs propose_half_dev prod.case Let_def
      post_half_step post_unit_params randomMT_def
    using ln big
    by (simp add: zero_draws_def uniform01_0 cp fp sentinel_def)
  finally show ?thesis .
qed

lemma up_step_state:
  "chain_state up_draws 6 half_dev 1 [Fin 0] [Fin 0] [Fin 2] [Fin 1] 1 unit_params 1 =
     \<lparr> st_Aparam = [Fin (1 + sqrt (2 * ln 2) / 4), Fin 1, Fin 0, Fin 0, Fin 1, Fin 1],
       st_AparamMax = Some [Fin (1 + sqrt (2 * ln 2) / 4), Fin 1, Fin 0, Fin 0, Fin 1, Fin 1],
       st_postMax = Fin (- ln (1 + sqrt (2 * ln 2) / 4) - ln 2 / 8),
       st_probpre = Fin 0,
       st_accept = 1,
       st_chains = [Some [Fin (1 + sqrt (2 * ln 2) / 4), Fin 1, Fin 0, Fin 0, Fin 1, Fin 1]],
       st_pos = 13 \<rparr>"
proof -
  let ?cand = "[Fin (1 + sqrt (2 * ln 2) / 4), Fin 1, Fin 0, Fin 0, Fin 1, Fin 1]"
  have len: "length ?cand = 6" "length unit_params = 6" by (simp_all add: unit_params_def)
  have cp: "copy_params 6 ?cand unit_params = ?cand" by (rule copy_params_full [OF len])
  have fp: "fill_params 6 ?cand = ?cand" by (rule fill_params_full [OF len(1)])
  have big: "- (10 ^ 34) < - ln (1 + sqrt (2 * ln 2) / 4) - ln 2 / (8::real)"
    using post_up_step_bounds(2) ln2_ge_half ln_2_less_1 by (simp add: ln_div)
  have "chain_state up_draws 6 half_dev 1 [Fin 0] [Fin 0] [Fin 2] [Fin 1] 1 unit_params 1 =
        walk_step up_draws 6 half_dev 1 [Fin 0] [Fin 0] [Fin 2] [Fin 1]
          (walk_init 1 6 unit_params 1 [Fin 0] [Fin 0] [Fin 2] [Fin 1]) 1"
    using chain_state_Suc [of up_draws 6 half_dev 1 "[Fin 0]" "[Fin 0]" "[Fin 2]" "[Fin 1]" 1 unit_params 0]
    by (simp add: chain_state_0)
  also have "\<dots> = \<lparr> st_Aparam = ?cand, st_AparamMax = Some ?cand,
       st_postMax = Fin (- ln (1 + sqrt (2 * ln 2) / 4) - ln 2 / 8),
       st_probpre = Fin 0, st_accept = 1, st_chains = [Some ?cand], st_pos = 13 \<rparr>"
    unfolding walk_step_def walk_init_def walker.select_convs propose_up_draws prod.case Let_def
      post_up_step post_unit_params randomMT_def
    using post_up_step_bounds(2) big
    by (simp add: up_draws_def uniform01_0 cp fp sentinel_def)
  finally show ?thesis .
qed

section \<open>The sentinel absorbs the prior\<close>

text \<open>
  Doubles near \<open>1e34\<close> are \<open>2^60\<close> apart, and \<open>10^34\<close> lies \<open>0.47 * 2^60\<close>
  above one of them: every real within \<open>1000\<close> of \<open>-10^34\<close> rounds to the same
  double as \<open>-10^34\<close>. The logarithm of a product of four moderate numbers is within
  that distance of zero.
\<close>

lemma to_double_near_sentinel:
  assumes "\<bar>t\<bar> \<le> 1000"
  shows "to_double (t - 10 ^ 34) = Fin (- 9999999999999999455752309870428160)"
proof -
  let ?x = "t - 10 ^ 34 :: real"
  have neg: "?x < 0" "?x \<noteq> 0" using assms by simp_all
  have ax: "\<bar>?x\<bar> = 10 ^ 34 - t" using assms by simp
  have lo: "2 powr 112 \<le> \<bar>?x\<bar>" unfolding ax using assms by simp
  have hi: "\<bar>?x\<bar> < 2 powr 113" unfolding ax using assms by simp
  have "\<lfloor>log 2 \<bar>?x\<bar>\<rfloor> = 112"
  proof (rule floor_unique)
    show "of_int 112 \<le> log 2 \<bar>?x\<bar>" using lo neg by (simp add: le_log_iff)
    show "log 2 \<bar>?x\<bar> < of_int 112 + 1" using hi neg by (simp add: log_less_iff)
  qed
  then have e: "max \<lfloor>log 2 \<bar>?x\<bar>\<rfloor> (- 1022) = 112" by simp
  have ulp: "2 powr (of_int 112 - 52) = (2 ^ 60 :: real)" by simp
  have fl: "\<lfloor>?x / 2 ^ 60\<rfloor> = - 8673617379884036"
    using assms by (intro floor_unique) simp_all
  have "- 1000 \<le> t" using assms by simp
  then have frac: "1 / 2 < ?x / 2 ^ 60 - of_int (- 8673617379884036)"
    by (simp add: field_simps)
  have r: "round_even (?x / 2 ^ 60) = - 8673617379884035"
    unfolding round_even_def fl Let_def using frac by simp
  show ?thesis
    unfolding to_double_def e ulp r Let_def using neg by (simp add: DBL_MAX_def)
qed

lemma moderate_product_ln:
  assumes m: "moderate a" "moderate b" "moderate c" "moderate d"
    and p: "0 < a * b * c * d"
  shows "\<bar>ln (a * b * c * d)\<bar> \<le> 1000"
proof -
  from p have nz: "a \<noteq> 0" "b \<noteq> 0" "c \<noteq> 0" "d \<noteq> 0" by auto
  with m have lo: "1 / 2 ^ 250 \<le> \<bar>a\<bar>" "1 / 2 ^ 250 \<le> \<bar>b\<bar>" "1 / 2 ^ 250 \<le> \<bar>c\<bar>" "1 / 2 ^ 250 \<le> \<bar>d\<bar>"
    and hi: "\<bar>a\<bar> \<le> 2 ^ 250" "\<bar>b\<bar> \<le> 2 ^ 250" "\<bar>c\<bar> \<le> 2 ^ 250" "\<bar>d\<bar> \<le> 2 ^ 250"
    by (simp_all add: moderate_def)
  have eq: "a * b * c * d = \<bar>a\<bar> * \<bar>b\<bar> * \<bar>c\<bar> * \<bar>d\<bar>"
    using p by (simp flip: abs_mult)
  have "\<bar>a\<bar> * \<bar>b\<bar> * \<bar>c\<bar> * \<bar>d\<bar> \<le> 2 ^ 250 * 2 ^ 250 * 2 ^ 250 * 2 ^ 250"
    using hi by (intro mult_mono) simp_all
  then have up: "a * b * c * d \<le> 2 ^ 1000" unfolding eq by simp
  have "1 / 2 ^ 250 * (1 / 2 ^ 250) * (1 / 2 ^ 250) * (1 / 2 ^ 250) \<le> \<bar>a\<bar> * \<bar>b\<bar> * \<bar>c\<bar> * \<bar>d\<bar>"
    using lo by (intro mult_mono) simp_all
  then have dn: "1 / 2 ^ 1000 \<le> a * b * c * d" unfolding eq by simp
  have l2: "0 < ln (2::real)" "ln (2::real) < 1" using ln_2_less_1 by simp_all
  have pw: "ln ((2::real) ^ 1000) = real 1000 * ln 2" by (rule ln_realpow)
  have "ln (a * b * c * d) \<le> ln (2 ^ 1000)"
    using p up by (subst ln_le_cancel_iff) simp_all
  then have u: "ln (a * b * c * d) \<le> 1000" unfolding pw using l2 by simp
  have "ln (1 / 2 ^ 1000 :: real) = ln 1 - ln (2 ^ 1000)" by (rule ln_divide_pos) simp_all
  then have iv: "ln (1 / 2 ^ 1000 :: real) = - (real 1000 * ln 2)" unfolding pw by simp
  have "ln (1 / 2 ^ 1000 :: real) \<le> ln (a * b * c * d)"
    using p dn by (subst ln_le_cancel_iff) simp_all
  then have "- 1000 \<le> ln (a * b * c * d)" unfolding iv using l2 by simp
  with u show ?thesis by simp
qed

lemma prior_plus_sentinel:
  "- c_log (Fin q) + Fin (- (10 ^ 34)) =
     (if q < 0 then NaN else if q = 0 then PInf else Fin (- ln q - 10 ^ 34))"
  by simp

section \<open>Rounding keeps a number that is not negative so\<close>











section \<open>The claims\<close>

subsection \<open>C1: the posterior that the acceptance test compares against\<close>

text \<open>
  In every state of the chain \<open>probpre\<close> is the posterior of the vector that
  \<open>walkers\<close> was called with.
\<close>

lemma chain_state_probpre:
  "st_probpre (chain_state draws Nparam dev Npts uCo vCo Vis Sigma' Nchain Aparam k) =
     post Nparam Aparam Npts uCo vCo Vis Sigma'"
  by (induction k) (simp_all add: chain_state_0 chain_state_Suc walk_step_probpre walk_init_def)

text \<open>
  C1 says that on acceptance the current posterior becomes the posterior of the
  candidate. In \<open>walkers\<close> the variable \<open>probpre\<close> is assigned once, before the loop,
  and no iteration writes it. On the run with \<open>half_dev\<close> and \<open>zero_draws\<close> the first
  proposal is accepted and changes \<open>Aparam\<close>; after it \<open>probpre\<close> is still the
  posterior of the initial vector and differs from the posterior of the current one.
\<close>

theorem probpre_stale_after_accept:
  "st_accept (chain_state zero_draws 6 half_dev 1 [Fin 0] [Fin 0] [Fin 2] [Fin 1] 1 unit_params 1) = 1
   \<and> st_Aparam (chain_state zero_draws 6 half_dev 1 [Fin 0] [Fin 0] [Fin 2] [Fin 1] 1 unit_params 1) \<noteq> unit_params
   \<and> st_probpre (chain_state zero_draws 6 half_dev 1 [Fin 0] [Fin 0] [Fin 2] [Fin 1] 1 unit_params 1)
       = post 6 unit_params 1 [Fin 0] [Fin 0] [Fin 2] [Fin 1]
   \<and> st_probpre (chain_state zero_draws 6 half_dev 1 [Fin 0] [Fin 0] [Fin 2] [Fin 1] 1 unit_params 1)
       \<noteq> post 6 (st_Aparam (chain_state zero_draws 6 half_dev 1 [Fin 0] [Fin 0] [Fin 2] [Fin 1] 1 unit_params 1))
            1 [Fin 0] [Fin 0] [Fin 2] [Fin 1]"
  unfolding half_step_state walker.select_convs post_half_step post_unit_params
  using post_half_step_pos sqrt_2ln2_bounds(1)
  by (simp add: unit_params_def)

subsection \<open>C2: the argument of the logarithm and of the square root in gauss\<close>

text \<open>
  For every first draw but \<open>0x80000000\<close> the value \<open>y1\<close> lies strictly between
  \<open>0\<close> and \<open>1\<close>, and \<open>gauss\<close> returns a finite number for a finite \<open>sigma\<close>.
\<close>

lemma uniform01_min: "uniform01 0x80000000 = Fin (- (1 / 8589934590))"
  by (simp add: uniform01_def MTMAX_def)

lemma sint_bounds_uint32:
  fixes d :: uint32
  assumes "d \<noteq> 0x80000000"
  shows "- 2147483647 \<le> sint d" "sint d \<le> 2147483647"
proof -
  have lo: "- 2147483648 \<le> sint d" using sint_ge [of d] by simp
  have hi: "sint d < 2147483648" using sint_lt [of d] by simp
  have "sint d \<noteq> - 2147483648"
  proof
    assume "sint d = - 2147483648"
    then have "sint d = sint (0x80000000 :: uint32)" by simp
    then have "d = 0x80000000" by (rule signed_word_eqI)
    with assms show False by simp
  qed
  with lo show "- 2147483647 \<le> sint d" by linarith
  from hi show "sint d \<le> 2147483647" by linarith
qed

lemma uniform01_range:
  assumes "d \<noteq> 0x80000000"
  shows "\<exists>y. uniform01 d = Fin y \<and> 0 < y \<and> y < 1"
proof -
  have b: "- 2147483647 \<le> real_of_int (sint d)" "real_of_int (sint d) \<le> 2147483647"
    using sint_bounds_uint32 [OF assms] by (simp_all flip: of_int_le_iff [where 'a = real])
  have "uniform01 d = Fin (real_of_int (sint d) / 4294967295 + 1 / 2)"
    by (simp add: uniform01_def MTMAX_def)
  moreover have "0 < real_of_int (sint d) / 4294967295 + 1 / 2" using b by simp
  moreover have "real_of_int (sint d) / 4294967295 + 1 / 2 < 1" using b by simp
  ultimately show ?thesis by blast
qed

lemma uniform01_finite: "\<exists>y. uniform01 d = Fin y"
  by (simp add: uniform01_def MTMAX_def)

lemma gauss_finite:
  assumes "draws pos \<noteq> 0x80000000"
  shows "\<exists>g. fst (gauss draws (Fin s) pos) = Fin g"
proof -
  from uniform01_range [OF assms] obtain y1 where y1: "uniform01 (draws pos) = Fin y1" "0 < y1" "y1 < 1"
    by blast
  from uniform01_finite obtain y2 where y2: "uniform01 (draws (Suc pos)) = Fin y2"
    by blast
  have "ln y1 \<le> 0" using y1 by simp
  then show ?thesis
    using y1(2) by (simp add: gauss_def randomMT_def Let_def y1(1) y2 M_PI_def)
qed

text \<open>
  C2 says that \<open>gauss\<close> never returns NaN. The draw \<open>0x80000000\<close> is read as
  \<open>-2^31\<close>, so that \<open>y1 = -2^31 / (2^32 - 1) + 0.5\<close> is negative: its logarithm
  is NaN, and so is the value that \<open>gauss\<close> returns.
\<close>

theorem gauss_nan_at_min_draw:
  "uniform01 0x80000000 = Fin (- (1 / 8589934590))
   \<and> uniform01 0x80000000 < Fin 0
   \<and> c_log (uniform01 0x80000000) = NaN
   \<and> fst (gauss nan_draws (Fin 1) 0) = NaN"
  by (simp add: gauss_def randomMT_def uniform01_min nan_draws_def uniform01_0 M_PI_def Let_def)

subsection \<open>C3: post for a negative flux or width\<close>

text \<open>
  C3 as stated fails: \<open>post\<close> evaluates \<open>prior\<close> whatever \<open>like\<close> returns. With
  one negative flux the product under the logarithm is negative: \<open>like\<close> is the
  sentinel and \<open>post\<close> is NaN. With a negative flux and a zero width the product is
  zero, its logarithm minus infinity, and \<open>post\<close> plus infinity.
\<close>

theorem post_negative_flux_counterexample:
  "like 6 negative_flux_params 1 [Fin 0] [Fin 0] [Fin 3] [Fin 1] = sentinel
   \<and> post 6 negative_flux_params 1 [Fin 0] [Fin 0] [Fin 3] [Fin 1] = NaN
   \<and> post 6 negative_flux_params 1 [Fin 0] [Fin 0] [Fin 3] [Fin 1] \<noteq> sentinel
   \<and> like 6 negative_flux_zero_width_params 1 [Fin 0] [Fin 0] [Fin 3] [Fin 1] = sentinel
   \<and> post 6 negative_flux_zero_width_params 1 [Fin 0] [Fin 0] [Fin 3] [Fin 1] = PInf"
  by (simp add: post_def prior_def like_def negative_flux_params_def
      negative_flux_zero_width_params_def sentinel_def)

text \<open>
  C3, amended. For every parameter vector whose two fluxes and two widths are moderate
  numbers, one of them negative, \<open>like\<close> is the sentinel, and \<open>post\<close>, which
  evaluates the prior all the same, is NaN if the product
  \<open>flux1 * width1 * flux2 * width2\<close> is negative, plus infinity if it is zero, and
  the sentinel if it is positive: the sum of the prior and \<open>-1e34\<close> is rounded to
  the same double as \<open>-1e34\<close>. When none of the four is negative \<open>post\<close> is
  minus the logarithm of the product minus the chi-square sum. The other entries of the
  vector and the data are arbitrary.
\<close>

theorem post_negative_components:
  assumes "Aparam ! 0 = Fin a" and "Aparam ! 1 = Fin b" and "Aparam ! 4 = Fin c" and "Aparam ! 5 = Fin d"
    and "moderate a" and "moderate b" and "moderate c" and "moderate d"
  shows "(a < 0 \<or> b < 0 \<or> c < 0 \<or> d < 0 \<longrightarrow>
            like Nparam Aparam Npts uCo vCo Vis Sigma' = sentinel
            \<and> (a * b * c * d < 0 \<longrightarrow> post Nparam Aparam Npts uCo vCo Vis Sigma' = NaN)
            \<and> (a * b * c * d = 0 \<longrightarrow> post Nparam Aparam Npts uCo vCo Vis Sigma' = PInf)
            \<and> (0 < a * b * c * d \<longrightarrow>
                 rnd (post Nparam Aparam Npts uCo vCo Vis Sigma') = rnd sentinel))
       \<and> (\<not> (a < 0 \<or> b < 0 \<or> c < 0 \<or> d < 0) \<longrightarrow>
            post Nparam Aparam Npts uCo vCo Vis Sigma' =
              - c_log (Fin (a * b * c * d))
                + - foldl (chi2_step Nparam Aparam uCo vCo Vis Sigma') (Fin 0) [1..<Suc Npts])"
proof -
  let ?p = "a * b * c * d"
  have pr: "prior Nparam Aparam = - c_log (Fin ?p)"
    unfolding prior_def assms(1-4) by simp
  have s0: "to_double (- (10 ^ 34)) = Fin (- 9999999999999999455752309870428160)"
    using to_double_near_sentinel [of 0] by simp
  have neg_case: "like Nparam Aparam Npts uCo vCo Vis Sigma' = sentinel
      \<and> (?p < 0 \<longrightarrow> post Nparam Aparam Npts uCo vCo Vis Sigma' = NaN)
      \<and> (?p = 0 \<longrightarrow> post Nparam Aparam Npts uCo vCo Vis Sigma' = PInf)
      \<and> (0 < ?p \<longrightarrow> rnd (post Nparam Aparam Npts uCo vCo Vis Sigma') = rnd sentinel)"
    if neg: "a < 0 \<or> b < 0 \<or> c < 0 \<or> d < 0"
  proof -
    have l: "like Nparam Aparam Npts uCo vCo Vis Sigma' = Fin (- (10 ^ 34))"
      unfolding like_def assms(1-4) using neg by (auto simp add: sentinel_def simp del: upt_Suc)
    have n: "post Nparam Aparam Npts uCo vCo Vis Sigma' = NaN" if "?p < 0"
      unfolding post_def l pr prior_plus_sentinel using that by (simp only: if_True)
    have z: "post Nparam Aparam Npts uCo vCo Vis Sigma' = PInf" if "?p = 0"
      unfolding post_def l pr prior_plus_sentinel using that by (simp only: if_True if_False less_irrefl refl)
    have a: "rnd (post Nparam Aparam Npts uCo vCo Vis Sigma') = rnd sentinel" if pos: "0 < ?p"
    proof -
      have "\<bar>- ln ?p\<bar> \<le> 1000"
        using moderate_product_ln [OF assms(5-8) pos] by simp
      then have t: "to_double (- ln ?p - 10 ^ 34) = to_double (- (10 ^ 34))"
        unfolding s0 by (rule to_double_near_sentinel)
      have "\<not> ?p < 0" "?p \<noteq> 0" using pos by linarith+
      then have "post Nparam Aparam Npts uCo vCo Vis Sigma' = Fin (- ln ?p - 10 ^ 34)"
        unfolding post_def l pr prior_plus_sentinel by (simp only: if_False)
      then show ?thesis unfolding sentinel_def by (simp only: rnd.simps t)
    qed
    from l n z a show ?thesis unfolding sentinel_def by blast
  qed
  have other: "post Nparam Aparam Npts uCo vCo Vis Sigma' =
      - c_log (Fin ?p)
        + - foldl (chi2_step Nparam Aparam uCo vCo Vis Sigma') (Fin 0) [1..<Suc Npts]"
    if "\<not> (a < 0 \<or> b < 0 \<or> c < 0 \<or> d < 0)"
    unfolding post_def pr like_def assms(1-4) using that by (auto simp del: upt_Suc)
  from neg_case other show ?thesis by blast
qed

theorem post_negative_components_witness:
  "negative_pair_params ! 0 = Fin (- 2) \<and> negative_pair_params ! 1 = Fin (- 1)
   \<and> negative_pair_params ! 4 = Fin 1 \<and> negative_pair_params ! 5 = Fin 1
   \<and> moderate (- 2) \<and> moderate (- 1) \<and> moderate 1
   \<and> (- 2 :: real) < 0 \<and> (0 :: real) < - 2 * - 1 * 1 * 1
   \<and> like 6 negative_pair_params 1 [Fin 0] [Fin 0] [Fin 3] [Fin 1] = sentinel
   \<and> post 6 negative_pair_params 1 [Fin 0] [Fin 0] [Fin 3] [Fin 1] = Fin (- ln 2 - 10 ^ 34)
   \<and> rnd (post 6 negative_pair_params 1 [Fin 0] [Fin 0] [Fin 3] [Fin 1]) = rnd sentinel
   \<and> rnd sentinel = Fin (- 9999999999999999455752309870428160)"
proof -
  have m: "moderate (- 2)" "moderate (- 1)" "moderate 1"
    by (simp_all add: moderate_def)
  have e: "negative_pair_params ! 0 = Fin (- 2)" "negative_pair_params ! 1 = Fin (- 1)"
    "negative_pair_params ! 4 = Fin 1" "negative_pair_params ! 5 = Fin 1"
    by (simp_all add: negative_pair_params_def)
  have p: "post 6 negative_pair_params 1 [Fin 0] [Fin 0] [Fin 3] [Fin 1] = Fin (- ln 2 - 10 ^ 34)"
    by (simp add: post_def prior_def like_def negative_pair_params_def sentinel_def)
  have s: "rnd sentinel = Fin (- 9999999999999999455752309870428160)"
    using to_double_near_sentinel [of 0] by (simp add: sentinel_def)
  from post_negative_components
    [OF e m(1) m(2) m(3) m(3), of 6 1 "[Fin 0]" "[Fin 0]" "[Fin 3]" "[Fin 1]"]
  have "like 6 negative_pair_params 1 [Fin 0] [Fin 0] [Fin 3] [Fin 1] = sentinel
    \<and> rnd (post 6 negative_pair_params 1 [Fin 0] [Fin 0] [Fin 3] [Fin 1]) = rnd sentinel"
    by simp
  with m e p s show ?thesis by (simp only: simp_thms) simp
qed


subsection \<open>C4: a flux or width that is exactly zero\<close>

text \<open>
  C4 as stated fails: the guard of \<open>like\<close> tests \<open>< 0\<close>, so a flux that is exactly
  zero passes it and the data point is compared with the model.
\<close>

theorem like_zero_flux_counterexample:
  "like 6 zero_flux_params 1 [Fin 0] [Fin 0] [Fin 3] [Fin 1] = Fin (- 4)
   \<and> like 6 zero_flux_params 1 [Fin 0] [Fin 0] [Fin 3] [Fin 1] \<noteq> sentinel"
  by (simp add: like_def chi2_step_def zero_flux_params_def model_origin minus_double_def sentinel_def)

text \<open>
  C4, amended. A strictly negative flux or width makes \<open>like\<close> return the sentinel.
  When the four fluxes and widths are all non-negative, a zero among them included,
  the guard does not fire and \<open>like\<close> is minus the chi-square sum over the data points.
\<close>

theorem like_guard_strict:
  assumes "6 \<le> length ps"
  shows "(ps ! 0 < 0 \<or> ps ! 1 < 0 \<or> ps ! 4 < 0 \<or> ps ! 5 < 0 \<longrightarrow>
            like Nparam (map Fin ps) Npts uCo vCo Vis Sigma' = sentinel)
       \<and> (0 \<le> ps ! 0 \<and> 0 \<le> ps ! 1 \<and> 0 \<le> ps ! 4 \<and> 0 \<le> ps ! 5 \<longrightarrow>
            like Nparam (map Fin ps) Npts uCo vCo Vis Sigma' =
              - foldl (chi2_step Nparam (map Fin ps) uCo vCo Vis Sigma') (Fin 0) [1..<Suc Npts])"
  by (auto simp add: like_def nth_map_Fin [OF assms] simp del: upt_Suc)

theorem like_guard_strict_witness:
  "6 \<le> length [0, 1, 0, 0, 1, 1 :: real]
   \<and> 0 \<le> [0, 1, 0, 0, 1, 1 :: real] ! 0 \<and> 0 \<le> [0, 1, 0, 0, 1, 1 :: real] ! 1
   \<and> 0 \<le> [0, 1, 0, 0, 1, 1 :: real] ! 4 \<and> 0 \<le> [0, 1, 0, 0, 1, 1 :: real] ! 5
   \<and> like 6 (map Fin [0, 1, 0, 0, 1, 1]) 1 [Fin 0] [Fin 0] [Fin 3] [Fin 1] =
       - foldl (chi2_step 6 (map Fin [0, 1, 0, 0, 1, 1]) [Fin 0] [Fin 0] [Fin 3] [Fin 1]) (Fin 0) [1..<Suc 1]
   \<and> - foldl (chi2_step 6 (map Fin [0, 1, 0, 0, 1, 1]) [Fin 0] [Fin 0] [Fin 3] [Fin 1]) (Fin 0) [1..<Suc 1]
       = Fin (- 4)"
  using like_guard_strict [of "[0, 1, 0, 0, 1, 1]" 6 1 "[Fin 0]" "[Fin 0]" "[Fin 3]" "[Fin 1]"]
  by (simp add: chi2_step_def model_origin minus_double_def)

subsection \<open>C5: the guard of like\<close>

text \<open>
  C5. Whenever one of \<open>Aparam[0]\<close>, \<open>Aparam[1]\<close>, \<open>Aparam[4]\<close>, \<open>Aparam[5]\<close> is
  strictly negative, \<open>like\<close> returns \<open>-1e34\<close>, for every number of data points and
  all contents of the four data arrays: the sum over the data is not evaluated.
\<close>

theorem like_negative_sentinel:
  assumes "6 \<le> length Aparam"
    and "Aparam ! 0 < Fin 0 \<or> Aparam ! 1 < Fin 0 \<or> Aparam ! 4 < Fin 0 \<or> Aparam ! 5 < Fin 0"
  shows "like Nparam Aparam Npts uCo vCo Vis Sigma' = Fin (- (10 ^ 34))
       \<and> like Nparam Aparam Npts uCo vCo Vis Sigma' = like Nparam Aparam Npts2 uCo2 vCo2 Vis2 Sigma2"
  using assms(2) by (simp add: like_def sentinel_def)

theorem like_negative_sentinel_witness:
  "6 \<le> length negative_flux_params
   \<and> negative_flux_params ! 0 < Fin 0
   \<and> like 6 negative_flux_params 1 [NaN] [Fin 0] [PInf] [Fin 0] = Fin (- (10 ^ 34))
   \<and> like 6 negative_flux_params 1 [NaN] [Fin 0] [PInf] [Fin 0]
       = like 6 negative_flux_params 2 [Fin 0, Fin 1] [Fin 0, Fin 1] [Fin 2, Fin 3] [Fin 1, Fin 1]"
  using like_negative_sentinel [of negative_flux_params 6 1 "[NaN]" "[Fin 0]" "[PInf]" "[Fin 0]"
      2 "[Fin 0, Fin 1]" "[Fin 0, Fin 1]" "[Fin 2, Fin 3]" "[Fin 1, Fin 1]"]
  by (simp add: negative_flux_params_def like_def sentinel_def)

subsection \<open>C6: the MAP state\<close>

text \<open>
  C6 as stated fails: \<open>*postMax\<close> starts at the sentinel and is only ever compared
  with accepted candidates, never with the posterior of the initial vector. On the run
  with \<open>half_dev\<close> and \<open>up_draws\<close> the only proposal has a lower posterior than the
  initial vector and is accepted: the final \<open>*postMax\<close> is the posterior of that
  candidate, about \<open>-0.34\<close>, below the posterior \<open>0\<close> of the initial vector.
\<close>

theorem map_below_initial_counterexample:
  "walkers one_rank up_draws 1 6 unit_params half_dev 1 [Fin 0] [Fin 0] [Fin 2] [Fin 1] =
     Inr \<lparr> acceptance = Fin 1,
           out_postMax = Fin (- ln (1 + sqrt (2 * ln 2) / 4) - ln 2 / 8),
           out_Aparam = Some [Fin (1 + sqrt (2 * ln 2) / 4), Fin 1, Fin 0, Fin 0, Fin 1, Fin 1],
           out_file = Some (True, [Some [Fin (1 + sqrt (2 * ln 2) / 4), Fin 1, Fin 0, Fin 0, Fin 1, Fin 1]]) \<rparr>
   \<and> post 6 unit_params 1 [Fin 0] [Fin 0] [Fin 2] [Fin 1] = Fin 0
   \<and> \<not> post 6 unit_params 1 [Fin 0] [Fin 0] [Fin 2] [Fin 1]
         \<le> Fin (- ln (1 + sqrt (2 * ln 2) / 4) - ln 2 / 8)"
proof -
  let ?cand = "[Fin (1 + sqrt (2 * ln 2) / 4), Fin 1, Fin 0, Fin 0, Fin 1, Fin 1]"
  have cp: "copy_params 6 ?cand ?cand = ?cand" by (rule copy_params_full) simp_all
  have "malloc_ok one_rank" "rank one_rank < sz one_rank \<longrightarrow> fopen_ok one_rank"
    by (simp_all add: one_rank_def)
  from walkers_returns [OF this, of up_draws 1 6 unit_params half_dev 1 "[Fin 0]" "[Fin 0]" "[Fin 2]" "[Fin 1]"]
  show ?thesis
    unfolding up_step_state walker.select_convs post_unit_params
    using post_up_step_bounds(1)
    by (simp add: one_rank_def cp)
qed

text \<open>
  C6, amended. Across one run of \<open>walkers\<close>, \<open>*postMax\<close> starts at the sentinel
  \<open>-1e34\<close> and is non-decreasing from one iteration to the next; at the end it is at
  least the sentinel and at least the posterior of every accepted candidate. If
  \<open>AparamMax\<close> has been written, the vector returned in \<open>Aparam\<close> is an accepted
  candidate whose posterior equals the final \<open>*postMax\<close>; if not, \<open>*postMax\<close> is
  still the sentinel.
\<close>

theorem map_posterior_monotone:
  assumes "length Aparam = Nparam" and "malloc_ok env" and "rank env < sz env \<longrightarrow> fopen_ok env"
  shows "\<exists>r. walkers env draws Nchain Nparam Aparam dev Npts uCo vCo Vis Sigma' = Inr r
     \<and> st_postMax (chain_state draws Nparam dev Npts uCo vCo Vis Sigma' Nchain Aparam 0) = Fin (- (10 ^ 34))
     \<and> (\<forall>k<Nchain.
           st_postMax (chain_state draws Nparam dev Npts uCo vCo Vis Sigma' Nchain Aparam k)
             \<le> st_postMax (chain_state draws Nparam dev Npts uCo vCo Vis Sigma' Nchain Aparam (Suc k)))
     \<and> out_postMax r = st_postMax (chain_state draws Nparam dev Npts uCo vCo Vis Sigma' Nchain Aparam Nchain)
     \<and> Fin (- (10 ^ 34)) \<le> out_postMax r
     \<and> (\<forall>k<Nchain.
           accepted draws Nparam dev Npts uCo vCo Vis Sigma'
             (chain_state draws Nparam dev Npts uCo vCo Vis Sigma' Nchain Aparam k) \<longrightarrow>
           post Nparam (candidate draws Nparam dev
               (chain_state draws Nparam dev Npts uCo vCo Vis Sigma' Nchain Aparam k)) Npts uCo vCo Vis Sigma'
             \<le> out_postMax r)
     \<and> (case out_Aparam r of
           None \<Rightarrow> out_postMax r = Fin (- (10 ^ 34))
         | Some m \<Rightarrow>
             post Nparam m Npts uCo vCo Vis Sigma' = out_postMax r
             \<and> (\<exists>k<Nchain.
                   accepted draws Nparam dev Npts uCo vCo Vis Sigma'
                     (chain_state draws Nparam dev Npts uCo vCo Vis Sigma' Nchain Aparam k)
                   \<and> m = candidate draws Nparam dev
                       (chain_state draws Nparam dev Npts uCo vCo Vis Sigma' Nchain Aparam k)))"
proof -
  let ?S = "chain_state draws Nparam dev Npts uCo vCo Vis Sigma' Nchain Aparam"
  let ?r = "\<lparr> acceptance = Fin (real (st_accept (?S Nchain))) / (Fin 1 * Fin (real Nchain)),
              out_postMax = st_postMax (?S Nchain),
              out_Aparam = map_option (\<lambda>AparamMax. copy_params Nparam AparamMax (st_Aparam (?S Nchain)))
                             (st_AparamMax (?S Nchain)),
              out_file = (if rank env < sz env
                          then Some (rank env = 0, map (\<lambda>ichain. st_chains (?S Nchain) ! (ichain - 1)) [1..<Suc Nchain])
                          else None) \<rparr>"
  have r: "walkers env draws Nchain Nparam Aparam dev Npts uCo vCo Vis Sigma' = Inr ?r"
    by (rule walkers_returns [OF assms(2,3)])
  have p0: "st_postMax (?S 0) = Fin (- (10 ^ 34))"
    by (simp add: chain_state_0 walk_init_def sentinel_def)
  have mono: "\<forall>k<Nchain. st_postMax (?S k) \<le> st_postMax (?S (Suc k))"
    by (simp add: chain_state_postMax_step)
  have ge: "Fin (- (10 ^ 34)) \<le> st_postMax (?S Nchain)"
    using chain_state_postMax_mono [of 0 Nchain draws Nparam dev Npts uCo vCo Vis Sigma' Nchain Aparam]
    by (simp add: p0)
  have acc: "\<forall>k<Nchain. accepted draws Nparam dev Npts uCo vCo Vis Sigma' (?S k) \<longrightarrow>
      post Nparam (candidate draws Nparam dev (?S k)) Npts uCo vCo Vis Sigma' \<le> st_postMax (?S Nchain)"
  proof (intro allI impI)
    fix k assume k: "k < Nchain" and a: "accepted draws Nparam dev Npts uCo vCo Vis Sigma' (?S k)"
    from chain_state_accepted_le [OF a]
    have "post Nparam (candidate draws Nparam dev (?S k)) Npts uCo vCo Vis Sigma' \<le> st_postMax (?S (Suc k))" .
    moreover have "st_postMax (?S (Suc k)) \<le> st_postMax (?S Nchain)"
      using k by (intro chain_state_postMax_mono) simp
    ultimately show "post Nparam (candidate draws Nparam dev (?S k)) Npts uCo vCo Vis Sigma'
        \<le> st_postMax (?S Nchain)"
      by (rule double_le_trans)
  qed
  have mx: "case out_Aparam ?r of
           None \<Rightarrow> out_postMax ?r = Fin (- (10 ^ 34))
         | Some m \<Rightarrow>
             post Nparam m Npts uCo vCo Vis Sigma' = out_postMax ?r
             \<and> (\<exists>k<Nchain. accepted draws Nparam dev Npts uCo vCo Vis Sigma' (?S k)
                   \<and> m = candidate draws Nparam dev (?S k))"
    using chain_state_AparamMax [OF assms(1), of draws dev Npts uCo vCo Vis Sigma' Nchain Nchain] assms(1)
    by (auto simp add: sentinel_def copy_params_full length_candidate chain_state_length_Aparam
        split: option.splits simp del: upt_Suc)
  show ?thesis
    using r p0 mono ge acc mx by (intro exI [of _ ?r]) (simp del: upt_Suc)
qed

theorem map_posterior_monotone_witness:
  "length unit_params = 6 \<and> malloc_ok one_rank \<and> fopen_ok one_rank
   \<and> (\<exists>r. walkers one_rank zero_draws 1 6 unit_params half_dev 1 [Fin 0] [Fin 0] [Fin 2] [Fin 1] = Inr r
          \<and> out_postMax r = Fin (- ln (1 - sqrt (2 * ln 2) / 2) - ln 2 / 2)
          \<and> Fin (- (10 ^ 34)) \<le> out_postMax r
          \<and> (\<exists>m. out_Aparam r = Some m \<and> post 6 m 1 [Fin 0] [Fin 0] [Fin 2] [Fin 1] = out_postMax r))"
proof -
  have h: "length unit_params = 6" "malloc_ok one_rank" "rank one_rank < sz one_rank \<longrightarrow> fopen_ok one_rank"
    by (simp_all add: one_rank_def unit_params_def)
  from map_posterior_monotone [OF h, of zero_draws 1 half_dev 1 "[Fin 0]" "[Fin 0]" "[Fin 2]" "[Fin 1]"]
  obtain r where r: "walkers one_rank zero_draws 1 6 unit_params half_dev 1 [Fin 0] [Fin 0] [Fin 2] [Fin 1] = Inr r"
    and pm: "out_postMax r = st_postMax (chain_state zero_draws 6 half_dev 1 [Fin 0] [Fin 0] [Fin 2] [Fin 1] 1 unit_params 1)"
    and ge: "Fin (- (10 ^ 34)) \<le> out_postMax r"
    and mx: "case out_Aparam r of None \<Rightarrow> out_postMax r = Fin (- (10 ^ 34))
         | Some m \<Rightarrow> post 6 m 1 [Fin 0] [Fin 0] [Fin 2] [Fin 1] = out_postMax r
             \<and> (\<exists>k<1. accepted zero_draws 6 half_dev 1 [Fin 0] [Fin 0] [Fin 2] [Fin 1]
                     (chain_state zero_draws 6 half_dev 1 [Fin 0] [Fin 0] [Fin 2] [Fin 1] 1 unit_params k)
                   \<and> m = candidate zero_draws 6 half_dev
                       (chain_state zero_draws 6 half_dev 1 [Fin 0] [Fin 0] [Fin 2] [Fin 1] 1 unit_params k))"
    by blast
  have v: "out_postMax r = Fin (- ln (1 - sqrt (2 * ln 2) / 2) - ln 2 / 2)"
    using pm unfolding half_step_state walker.select_convs .
  have "out_postMax r \<noteq> Fin (- (10 ^ 34))"
    unfolding v using post_half_step_pos by simp
  with mx obtain m where "out_Aparam r = Some m"
    "post 6 m 1 [Fin 0] [Fin 0] [Fin 2] [Fin 1] = out_postMax r"
    by (cases "out_Aparam r") auto
  moreover have "fopen_ok one_rank" by (simp add: one_rank_def)
  ultimately show ?thesis using r v ge h by blast
qed

subsection \<open>C7: the chain record\<close>

text \<open>
  C7. The chain record has \<open>Nchain\<close> rows, and for every iteration \<open>i\<close> from \<open>1\<close>
  to \<open>Nchain\<close> the row at index \<open>i - 1\<close> is the parameter vector as it is after
  iteration \<open>i\<close>: the candidate of that iteration if it was accepted, the vector of
  the iteration before if it was rejected.
\<close>

theorem chain_record_rows:
  assumes "length Aparam = Nparam" and "1 \<le> i" and "i \<le> Nchain"
  shows "length (st_chains (chain_state draws Nparam dev Npts uCo vCo Vis Sigma' Nchain Aparam Nchain)) = Nchain
     \<and> st_chains (chain_state draws Nparam dev Npts uCo vCo Vis Sigma' Nchain Aparam Nchain) ! (i - 1)
         = Some (st_Aparam (chain_state draws Nparam dev Npts uCo vCo Vis Sigma' Nchain Aparam i))
     \<and> st_Aparam (chain_state draws Nparam dev Npts uCo vCo Vis Sigma' Nchain Aparam i)
         = (if accepted draws Nparam dev Npts uCo vCo Vis Sigma'
                 (chain_state draws Nparam dev Npts uCo vCo Vis Sigma' Nchain Aparam (i - 1))
            then candidate draws Nparam dev
                   (chain_state draws Nparam dev Npts uCo vCo Vis Sigma' Nchain Aparam (i - 1))
            else st_Aparam (chain_state draws Nparam dev Npts uCo vCo Vis Sigma' Nchain Aparam (i - 1)))"
proof -
  let ?S = "chain_state draws Nparam dev Npts uCo vCo Vis Sigma' Nchain Aparam"
  have len: "length (st_chains (?S Nchain)) = Nchain"
    by (simp add: chain_state_def walk_loop_length_chains walk_init_def)
  have buf: "Nchain \<le> length (st_chains (walk_init Nchain Nparam Aparam Npts uCo vCo Vis Sigma'))"
    by (simp add: walk_init_def)
  have "st_chains (?S Nchain) ! (i - 1) = Some (fill_params Nparam (st_Aparam (?S i)))"
    unfolding chain_state_def
    by (rule walk_loop_chains_row [OF buf assms(2) assms(3)])
  then have row: "st_chains (?S Nchain) ! (i - 1) = Some (st_Aparam (?S i))"
    using assms(1) by (simp add: fill_params_full chain_state_length_Aparam)
  from assms(2) obtain k where k: "i = Suc k" by (cases i) simp_all
  have "st_Aparam (?S (Suc k)) =
      (if accepted draws Nparam dev Npts uCo vCo Vis Sigma' (?S k)
       then candidate draws Nparam dev (?S k) else st_Aparam (?S k))"
    by (rule chain_state_Aparam_step [OF assms(1)])
  with len row k show ?thesis by simp
qed

theorem chain_record_rows_witness:
  "length unit_params = 6 \<and> (1::nat) \<le> 1
   \<and> length (st_chains (chain_state zero_draws 6 half_dev 1 [Fin 0] [Fin 0] [Fin 2] [Fin 1] 1 unit_params 1)) = 1
   \<and> st_chains (chain_state zero_draws 6 half_dev 1 [Fin 0] [Fin 0] [Fin 2] [Fin 1] 1 unit_params 1) ! (1 - 1)
       = Some (st_Aparam (chain_state zero_draws 6 half_dev 1 [Fin 0] [Fin 0] [Fin 2] [Fin 1] 1 unit_params 1))
   \<and> st_Aparam (chain_state zero_draws 6 half_dev 1 [Fin 0] [Fin 0] [Fin 2] [Fin 1] 1 unit_params 1)
       = [Fin (1 - sqrt (2 * ln 2) / 2), Fin 1, Fin 0, Fin 0, Fin 1, Fin 1]"
proof -
  have h: "length unit_params = 6" "(1::nat) \<le> 1" by (simp_all add: unit_params_def)
  from chain_record_rows [OF h(1) h(2) h(2), of zero_draws half_dev 1 "[Fin 0]" "[Fin 0]" "[Fin 2]" "[Fin 1]"]
  have "length (st_chains (chain_state zero_draws 6 half_dev 1 [Fin 0] [Fin 0] [Fin 2] [Fin 1] 1 unit_params 1)) = 1"
    and "st_chains (chain_state zero_draws 6 half_dev 1 [Fin 0] [Fin 0] [Fin 2] [Fin 1] 1 unit_params 1) ! (1 - 1)
       = Some (st_Aparam (chain_state zero_draws 6 half_dev 1 [Fin 0] [Fin 0] [Fin 2] [Fin 1] 1 unit_params 1))"
    by blast+
  moreover have "st_Aparam (chain_state zero_draws 6 half_dev 1 [Fin 0] [Fin 0] [Fin 2] [Fin 1] 1 unit_params 1)
       = [Fin (1 - sqrt (2 * ln 2) / 2), Fin 1, Fin 0, Fin 0, Fin 1, Fin 1]"
    unfolding half_step_state walker.select_convs ..
  ultimately show ?thesis using h by blast
qed

subsection \<open>C8: the acceptance counter and ratio\<close>

text \<open>
  C8. For a chain of length \<open>Nchain >= 1\<close>, \<open>accept\<close> starts at \<open>0\<close>, grows by at
  most one in each iteration and ends at most at \<open>Nchain\<close>; \<open>walkers\<close> returns
  \<open>accept / Nchain\<close>, which lies between \<open>0\<close> and \<open>1\<close>.
\<close>

theorem acceptance_ratio_bounds:
  assumes "1 \<le> Nchain" and "malloc_ok env" and "rank env < sz env \<longrightarrow> fopen_ok env"
  shows "\<exists>r. walkers env draws Nchain Nparam Aparam dev Npts uCo vCo Vis Sigma' = Inr r
     \<and> st_accept (chain_state draws Nparam dev Npts uCo vCo Vis Sigma' Nchain Aparam 0) = 0
     \<and> (\<forall>k<Nchain.
           st_accept (chain_state draws Nparam dev Npts uCo vCo Vis Sigma' Nchain Aparam (Suc k))
             = st_accept (chain_state draws Nparam dev Npts uCo vCo Vis Sigma' Nchain Aparam k)
         \<or> st_accept (chain_state draws Nparam dev Npts uCo vCo Vis Sigma' Nchain Aparam (Suc k))
             = st_accept (chain_state draws Nparam dev Npts uCo vCo Vis Sigma' Nchain Aparam k) + 1)
     \<and> st_accept (chain_state draws Nparam dev Npts uCo vCo Vis Sigma' Nchain Aparam Nchain) \<le> Nchain
     \<and> acceptance r =
         Fin (real (st_accept (chain_state draws Nparam dev Npts uCo vCo Vis Sigma' Nchain Aparam Nchain))
               / real Nchain)
     \<and> Fin 0 \<le> acceptance r \<and> acceptance r \<le> Fin 1"
proof -
  let ?S = "chain_state draws Nparam dev Npts uCo vCo Vis Sigma' Nchain Aparam"
  have a0: "st_accept (?S 0) = 0" by (simp add: chain_state_0 walk_init_def)
  have step: "st_accept (?S (Suc k)) = st_accept (?S k) \<or> st_accept (?S (Suc k)) = st_accept (?S k) + 1" for k
    unfolding chain_state_def by (rule walk_loop_accept_step)
  have le: "st_accept (?S Nchain) \<le> Nchain"
    using walk_loop_accept_le [of draws Nparam dev Npts uCo vCo Vis Sigma' Nchain
        "walk_init Nchain Nparam Aparam Npts uCo vCo Vis Sigma'"]
    by (simp add: chain_state_def walk_init_def)
  let ?r = "\<lparr> acceptance = Fin (real (st_accept (?S Nchain))) / (Fin 1 * Fin (real Nchain)),
              out_postMax = st_postMax (?S Nchain),
              out_Aparam = map_option (\<lambda>AparamMax. copy_params Nparam AparamMax (st_Aparam (?S Nchain)))
                             (st_AparamMax (?S Nchain)),
              out_file = (if rank env < sz env
                          then Some (rank env = 0, map (\<lambda>ichain. st_chains (?S Nchain) ! (ichain - 1)) [1..<Suc Nchain])
                          else None) \<rparr>"
  have r: "walkers env draws Nchain Nparam Aparam dev Npts uCo vCo Vis Sigma' = Inr ?r"
    by (rule walkers_returns [OF assms(2,3)])
  have ratio: "acceptance ?r = Fin (real (st_accept (?S Nchain)) / real Nchain)"
    using assms(1) by simp
  have bounds: "Fin 0 \<le> acceptance ?r" "acceptance ?r \<le> Fin 1"
    unfolding ratio using assms(1) le by simp_all
  show ?thesis
    using r a0 step le ratio bounds by (intro exI [of _ ?r]) (simp del: upt_Suc)
qed

theorem acceptance_ratio_bounds_witness:
  "(1::nat) \<le> 1 \<and> malloc_ok one_rank \<and> fopen_ok one_rank
   \<and> (\<exists>r. walkers one_rank zero_draws 1 6 unit_params half_dev 1 [Fin 0] [Fin 0] [Fin 2] [Fin 1] = Inr r
          \<and> acceptance r = Fin 1 \<and> Fin 0 \<le> acceptance r \<and> acceptance r \<le> Fin 1)"
proof -
  have h: "(1::nat) \<le> 1" "malloc_ok one_rank" "rank one_rank < sz one_rank \<longrightarrow> fopen_ok one_rank"
    by (simp_all add: one_rank_def)
  from acceptance_ratio_bounds [OF h, of zero_draws 6 unit_params half_dev 1 "[Fin 0]" "[Fin 0]" "[Fin 2]" "[Fin 1]"]
  obtain r where "walkers one_rank zero_draws 1 6 unit_params half_dev 1 [Fin 0] [Fin 0] [Fin 2] [Fin 1] = Inr r"
    and "acceptance r = Fin (real (st_accept
           (chain_state zero_draws 6 half_dev 1 [Fin 0] [Fin 0] [Fin 2] [Fin 1] 1 unit_params 1)) / real 1)"
    and "Fin 0 \<le> acceptance r" and "acceptance r \<le> Fin 1"
    by blast
  moreover have "fopen_ok one_rank" by (simp add: one_rank_def)
  ultimately show ?thesis
    unfolding half_step_state walker.select_convs using h by auto
qed


subsection \<open>C10: the sign of the value of model\<close>



end
